theory Spec2Isabelle
  imports Complex_Main
begin

section \<open>Scheduled forwarding engine of yen.js\<close>

text \<open>
  The development embeds the forwarding engine of \<^verbatim>\<open>src/yen.js\<close>:
  \<^verbatim>\<open>getRandomOpenTopic\<close>, \<^verbatim>\<open>forwardWithClient\<close>, the cycle loop of
  \<^verbatim>\<open>standardForward\<close> and the cycle loop of \<^verbatim>\<open>batchForward\<close>.

  JavaScript numbers (delays, clock readings, \<^verbatim>\<open>Math.random()\<close>) are modelled as
  \<^typ>\<open>real\<close>. The only arithmetic the engine performs on a delay is multiplication by
  2 and by 1000; doubling a binary floating point number is exact as long as it does not
  overflow, so the reals describe the finite values the code computes.
  Everything the platform decides (whether a connection succeeds, what a delivery call
  throws, what the clock and the random generator return) is an explicit input of the
  model.
\<close>

subsection \<open>Topics and topic selection\<close>

record topic =
  tid :: int
  title :: string
  closed :: bool

text \<open>
  \<^verbatim>\<open>Math.floor(Math.random() * openTopics.length)\<close>, for the value \<open>r\<close> returned by
  \<^verbatim>\<open>Math.random()\<close>.
\<close>

definition randomIndex :: "real \<Rightarrow> nat \<Rightarrow> int" where
  "randomIndex r n = \<lfloor>r * real n\<rfloor>"

text \<open>
  \<^verbatim>\<open>getRandomOpenTopic(topics)\<close>. The result \<open>Inr None\<close> is the \<^verbatim>\<open>null\<close> of the
  source, \<open>Inr (Some i)\<close> a topic id. Reading \<^verbatim>\<open>openTopics[randomIndex]\<close> outside the
  array gives \<^verbatim>\<open>undefined\<close>, whose \<^verbatim>\<open>.id\<close> throws a TypeError: that is \<open>Inl\<close> with
  the message of the error.
\<close>

definition getRandomOpenTopic :: "topic list \<Rightarrow> real \<Rightarrow> string + int option" where
  "getRandomOpenTopic topics r =
     (let openTopics = filter (\<lambda>t. \<not> closed t) topics in
      if length openTopics = 0 then Inr None
      else
        let k = randomIndex r (length openTopics) in
        if 0 \<le> k \<and> k < int (length openTopics) then Inr (Some (tid (openTopics ! nat k)))
        else Inl ''Cannot read properties of undefined (reading 'id')'')"

subsection \<open>Strings of error messages\<close>

text \<open>\<^verbatim>\<open>String.prototype.includes\<close>: \<open>sub\<close> occurs in \<open>s\<close> as a contiguous block.\<close>

fun includesStr :: "string \<Rightarrow> string \<Rightarrow> bool" where
  "includesStr [] sub = (sub = [])"
| "includesStr (c # cs) sub = (take (length sub) (c # cs) = sub \<or> includesStr cs sub)"

definition toLowerChar :: "char \<Rightarrow> char" where
  "toLowerChar c =
     (let n = (of_char c :: nat) in if 65 \<le> n \<and> n \<le> 90 then char_of (n + 32) else c)"

definition toLowerCase :: "string \<Rightarrow> string" where
  "toLowerCase s = map toLowerChar s"

definition isDigit :: "char \<Rightarrow> bool" where
  "isDigit c = (48 \<le> (of_char c :: nat) \<and> (of_char c :: nat) \<le> 57)"

text \<open>\<^verbatim>\<open>Number.parseInt\<close> on a string of decimal digits.\<close>

definition parseDigits :: "string \<Rightarrow> nat" where
  "parseDigits ds = foldl (\<lambda>acc c. 10 * acc + ((of_char c :: nat) - 48)) 0 ds"

text \<open>
  \<^verbatim>\<open>message.match(/FLOOD_WAIT_(\d+)/)\<close> followed by \<^verbatim>\<open>Number.parseInt\<close> of the
  captured group: the leftmost place where the literal is followed by at least one digit,
  with all the digits that follow it. \<open>None\<close> is the \<^verbatim>\<open>null\<close> of a failed match.
\<close>

fun floodWaitMatch :: "string \<Rightarrow> nat option" where
  "floodWaitMatch [] = None"
| "floodWaitMatch (c # cs) =
     (let s = c # cs; ds = takeWhile isDigit (drop 11 s) in
      if take 11 s = ''FLOOD_WAIT_'' \<and> ds \<noteq> [] then Some (parseDigits ds)
      else floodWaitMatch cs)"

text \<open>\<^verbatim>\<open>shouldSuppressError\<close>, for an error that has a non-empty message.\<close>

definition shouldSuppressError :: "string \<Rightarrow> bool" where
  "shouldSuppressError message =
     (if message = [] then False
      else
        let errorMsg = toLowerCase message in
        includesStr errorMsg ''timeout'' \<or> includesStr errorMsg ''timed out'' \<or>
        includesStr errorMsg ''etimedout'' \<or> includesStr errorMsg ''network error'' \<or>
        includesStr errorMsg ''connection'' \<or> includesStr errorMsg ''disconnected'' \<or>
        includesStr errorMsg ''socket'')"

text \<open>
  The message recorded for a delivery error that is not a rate limit
  (the \<^verbatim>\<open>else\<close> branch of the \<^verbatim>\<open>catch (forwardError)\<close> block).
\<close>

definition classifyError :: "string \<Rightarrow> string" where
  "classifyError message =
     (if shouldSuppressError message then ''Connection issue''
      else if includesStr message ''CHAT_WRITE_FORBIDDEN'' then ''Writing is forbidden in this chat''
      else if includesStr message ''TOPIC_CLOSED'' then ''The topic is closed''
      else if includesStr message ''CHANNEL_PRIVATE''
        then ''The channel is private or you are not a member''
      else message)"

subsection \<open>Lanes: the per-account configuration and one dispatch pass\<close>

record groupInfo =
  entityId :: int
  entityUsername :: string
  hasTopics :: bool
  topics :: "topic list"

record messageSource =
  sourceChannelId :: string
  messageId :: int

text \<open>The object pushed on \<^verbatim>\<open>accountConfigs\<close> by \<^verbatim>\<open>standardForward\<close>.\<close>

record config =
  account :: string
  messageSources :: "messageSource list"
  initialDelay :: real
  currentDelay :: real
  writableGroups :: "groupInfo list"

text \<open>\<^verbatim>\<open>groupInfo.entity.username || groupInfo.entity.id\<close>.\<close>

datatype label = Username string | EntityId int

definition groupLabel :: "groupInfo \<Rightarrow> label" where
  "groupLabel g = (if entityUsername g \<noteq> [] then Username (entityUsername g) else EntityId (entityId g))"

text \<open>An element of the \<^verbatim>\<open>results\<close> array of \<^verbatim>\<open>forwardWithClient\<close>.\<close>

record result =
  success :: bool
  group :: label
  error :: "string option"

text \<open>What a call of \<^verbatim>\<open>client.invoke\<close> does: it returns, or it throws an error with a message.\<close>

datatype response = Delivered | Thrown string

text \<open>
  What the platform and the random generator do while one destination is processed:
  \<open>peerError\<close> is the message of an error thrown while the input peer is built
  (caught by \<^verbatim>\<open>catch (groupError)\<close>), \<open>rnd1\<close> and \<open>resp1\<close> belong to the first
  delivery attempt, \<open>rnd2\<close> and \<open>resp2\<close> to the retry.
\<close>

record destEnv =
  peerError :: "string option"
  rnd1 :: real
  resp1 :: response
  rnd2 :: real
  resp2 :: response

text \<open>
  The observable actions of a pass: a \<^verbatim>\<open>ForwardMessages\<close> call with the id of the
  peer it goes to, the id of the message forwarded and its \<^verbatim>\<open>topMsgId\<close>
  (\<open>None\<close>: no topic, the root stream), and a \<^verbatim>\<open>sleep(ms)\<close>.
\<close>

datatype event = Invoke int int "int option" | Sleep real

text \<open>
  One delivery attempt: the \<^verbatim>\<open>if (groupInfo.hasTopics) ... else ...\<close> block. The topic
  is drawn first, then the call is made; an error of the draw is thrown before any call.
\<close>

definition attempt :: "int \<Rightarrow> groupInfo \<Rightarrow> real \<Rightarrow> response \<Rightarrow> event list \<times> response" where
  "attempt msg g r resp =
     (if hasTopics g then
        (case getRandomOpenTopic (topics g) r of
           Inl m \<Rightarrow> ([], Thrown m)
         | Inr topicId \<Rightarrow> ([Invoke (entityId g) msg topicId], resp))
      else ([Invoke (entityId g) msg None], resp))"

definition okResult :: "groupInfo \<Rightarrow> result" where
  "okResult g = \<lparr>success = True, group = groupLabel g, error = None\<rparr>"

definition failResult :: "groupInfo \<Rightarrow> string \<Rightarrow> result" where
  "failResult g m = \<lparr>success = False, group = groupLabel g, error = Some m\<rparr>"

text \<open>
  The body of the \<^verbatim>\<open>for (const groupInfo of config.writableGroups)\<close> loop of
  \<^verbatim>\<open>forwardWithClient\<close>: the updated configuration, the result pushed and the actions.
\<close>

definition forwardGroup ::
  "int \<Rightarrow> config \<Rightarrow> groupInfo \<Rightarrow> destEnv \<Rightarrow> config \<times> result \<times> event list" where
  "forwardGroup msg cfg g env =
     (case peerError env of
        Some m \<Rightarrow> (cfg, failResult g m, [Sleep (currentDelay cfg * 1000)])
      | None \<Rightarrow>
         (case attempt msg g (rnd1 env) (resp1 env) of
            (ev1, Delivered) \<Rightarrow> (cfg, okResult g, ev1 @ [Sleep (currentDelay cfg * 1000)])
          | (ev1, Thrown m) \<Rightarrow>
             (case floodWaitMatch m of
                Some waitSeconds \<Rightarrow>
                  (let cfg' = cfg\<lparr>currentDelay := currentDelay cfg * 2\<rparr> in
                   case attempt msg g (rnd2 env) (resp2 env) of
                     (ev2, Delivered) \<Rightarrow>
                       (cfg', okResult g,
                        ev1 @ [Sleep (real waitSeconds * 1000)] @ ev2 @
                        [Sleep (currentDelay cfg' * 1000)])
                   | (ev2, Thrown m2) \<Rightarrow>
                       (cfg', failResult g m2,
                        ev1 @ [Sleep (real waitSeconds * 1000)] @ ev2 @
                        [Sleep (currentDelay cfg' * 1000)]))
              | None \<Rightarrow>
                  (cfg, failResult g (classifyError m),
                   ev1 @ [Sleep (currentDelay cfg * 1000)]))))"

text \<open>
  The loop itself; \<open>env i\<close> is what happens at the destination of index \<open>i\<close>.
\<close>

fun forwardGroups ::
  "int \<Rightarrow> (nat \<Rightarrow> destEnv) \<Rightarrow> nat \<Rightarrow> config \<Rightarrow> groupInfo list \<Rightarrow>
   config \<times> result list \<times> event list" where
  "forwardGroups msg env i cfg [] = (cfg, [], [])"
| "forwardGroups msg env i cfg (g # gs) =
     (case forwardGroup msg cfg g (env i) of
        (cfg1, r, ev) \<Rightarrow>
          (case forwardGroups msg env (Suc i) cfg1 gs of
             (cfg2, rs, evs) \<Rightarrow> (cfg2, r # rs, ev @ evs)))"

text \<open>
  \<^verbatim>\<open>forwardWithClient(client, config, sourceChannel, messageId)\<close>: the configuration as
  the pass leaves it, the \<^verbatim>\<open>results\<close> returned and the actions of the pass.
\<close>

definition forwardWithClient ::
  "(nat \<Rightarrow> destEnv) \<Rightarrow> config \<Rightarrow> int \<Rightarrow> config \<times> result list \<times> event list" where
  "forwardWithClient env cfg msg = forwardGroups msg env 0 cfg (writableGroups cfg)"

subsection \<open>The cycle loop of standardForward\<close>

text \<open>
  The remainder operator \<^verbatim>\<open>%\<close> on integral numbers: the result has the sign of the
  dividend, and a zero divisor gives \<^verbatim>\<open>NaN\<close> (\<open>None\<close>).
\<close>

definition jsRemainder :: "int \<Rightarrow> int \<Rightarrow> int option" where
  "jsRemainder a b = (if b = 0 then None else Some (sgn a * (\<bar>a\<bar> mod \<bar>b\<bar>)))"

text \<open>\<^verbatim>\<open>(cycleCount - 1) % config.messageSources.length\<close>.\<close>

definition messageIndex :: "nat \<Rightarrow> 'a list \<Rightarrow> int option" where
  "messageIndex cycleCount sources = jsRemainder (int cycleCount - 1) (int (length sources))"

text \<open>
  \<^verbatim>\<open>config.messageSources[messageIndex]\<close>; \<open>None\<close> is \<^verbatim>\<open>undefined\<close>, the value of
  an array read at \<^verbatim>\<open>NaN\<close> or outside the array.
\<close>

definition selectSource :: "nat \<Rightarrow> 'a list \<Rightarrow> 'a option" where
  "selectSource cycleCount sources =
     (case messageIndex cycleCount sources of
        None \<Rightarrow> None
      | Some i \<Rightarrow> if 0 \<le> i \<and> i < int (length sources) then Some (sources ! nat i) else None)"

text \<open>
  What happens to one account in one cycle: \<open>connectError\<close> is the message of the error
  thrown by \<^verbatim>\<open>connectClient\<close>, \<open>sourceError\<close> says that \<^verbatim>\<open>client.getEntity\<close> throws,
  \<open>dests\<close> is what happens at each destination.
\<close>

record laneEnv =
  connectError :: "string option"
  sourceError :: bool
  dests :: "nat \<Rightarrow> destEnv"

text \<open>
  One cycle of the platform: \<open>nowStart\<close> is the \<^verbatim>\<open>Date.now()\<close> read by the loop
  condition, \<open>nowEnd\<close> the one read after the dispatch, \<open>lanes j\<close> is what happens to
  the account of index \<open>j\<close>.
\<close>

record 'l cycleEnv =
  nowStart :: real
  lanes :: "nat \<Rightarrow> 'l"
  nowEnd :: real

datatype laneStatus = ConnectFailed | SourceFailed | Connected messageSource

text \<open>
  The body of \<^verbatim>\<open>for (const config of accountConfigs)\<close>: a connection error is caught
  by \<^verbatim>\<open>catch (connectError)\<close>; an \<^verbatim>\<open>undefined\<close> message source makes
  \<^verbatim>\<open>currentMessageSource.sourceChannelId\<close> throw inside the inner \<^verbatim>\<open>try\<close>, which is
  handled like a failing \<^verbatim>\<open>getEntity\<close>; only otherwise the account is pushed on
  \<^verbatim>\<open>connectedClients\<close>.
\<close>

definition connectLane :: "nat \<Rightarrow> config \<Rightarrow> laneEnv \<Rightarrow> laneStatus" where
  "connectLane cycleCount cfg le =
     (case connectError le of
        Some m \<Rightarrow> ConnectFailed
      | None \<Rightarrow>
         (case selectSource cycleCount (messageSources cfg) of
            None \<Rightarrow> SourceFailed
          | Some src \<Rightarrow> if sourceError le then SourceFailed else Connected src))"

text \<open>
  The part of one account in a cycle: its status after the connection loop and, when it
  is connected, its pass over the destinations.
\<close>

record laneLog =
  status :: laneStatus
  results :: "result list"
  actions :: "event list"

definition runLane :: "nat \<Rightarrow> config \<Rightarrow> laneEnv \<Rightarrow> config \<times> laneLog" where
  "runLane cycleCount cfg le =
     (case connectLane cycleCount cfg le of
        Connected src \<Rightarrow>
          (case forwardWithClient (dests le) cfg (messageId src) of
             (cfg', rs, evs) \<Rightarrow> (cfg', \<lparr>status = Connected src, results = rs, actions = evs\<rparr>))
      | st \<Rightarrow> (cfg, \<lparr>status = st, results = [], actions = []\<rparr>))"

fun runLanes :: "nat \<Rightarrow> (nat \<Rightarrow> laneEnv) \<Rightarrow> nat \<Rightarrow> config list \<Rightarrow> (config \<times> laneLog) list" where
  "runLanes cycleCount env j [] = []"
| "runLanes cycleCount env j (cfg # cfgs) =
     runLane cycleCount cfg (env j) # runLanes cycleCount env (Suc j) cfgs"

definition isConnected :: "laneLog \<Rightarrow> bool" where
  "isConnected l = (case status l of Connected src \<Rightarrow> True | _ \<Rightarrow> False)"

text \<open>
  The variables of the forwarding process; the configurations are those of
  \<^verbatim>\<open>standardForward\<close> or those of \<^verbatim>\<open>batchForward\<close>.
\<close>

record 'c schedState =
  cycleCount :: nat
  totalSuccessCount :: nat
  totalFailCount :: nat
  accountConfigs :: "'c list"

text \<open>
  The loop \<^verbatim>\<open>for (const result of results)\<close> that adds the counts of every resolved
  pass to the totals.
\<close>

fun addResults :: "config schedState \<Rightarrow> result list list \<Rightarrow> config schedState" where
  "addResults st [] = st"
| "addResults st (result # rest) =
     addResults
       (st\<lparr>totalSuccessCount := totalSuccessCount st + length (filter success result),
           totalFailCount := totalFailCount st + length (filter (\<lambda>r. \<not> success r) result)\<rparr>)
       rest"

text \<open>What the model records about an executed cycle.\<close>

record cycleLog =
  cycleNo :: nat
  startedAt :: real
  laneLogs :: "laneLog list"

datatype runExit = DeadlineBeforeCycle | NoAccountConnected | DeadlineAfterDispatch

text \<open>
  The body of the \<^verbatim>\<open>while\<close> loop of \<^verbatim>\<open>standardForward\<close>, one cycle: the exit it
  takes (\<open>None\<close>: it sleeps for the cycle interval and goes round the loop again), the
  variables after it and what happened in it.
\<close>

definition runCycle ::
  "real \<Rightarrow> laneEnv cycleEnv \<Rightarrow> config schedState \<Rightarrow> runExit option \<times> config schedState \<times> cycleLog" where
  "runCycle endTime e st =
     (let st1 = st\<lparr>cycleCount := cycleCount st + 1\<rparr>;
          ran = runLanes (cycleCount st1) (lanes e) 0 (accountConfigs st1);
          lg = \<lparr>cycleNo = cycleCount st1, startedAt = nowStart e, laneLogs = map snd ran\<rparr>
      in
      if length (filter isConnected (map snd ran)) = 0 then (Some NoAccountConnected, st1, lg)
      else
        let st2 = addResults (st1\<lparr>accountConfigs := map fst ran\<rparr>)
                    (map results (filter isConnected (map snd ran)))
        in
        if nowEnd e \<ge> endTime then (Some DeadlineAfterDispatch, st2, lg) else (None, st2, lg))"

text \<open>
  The \<^verbatim>\<open>while (Date.now() < endTime)\<close> loop. The list is the behaviour of the platform
  in the cycles to come; the loop has not ended when the list is used up, and the value
  is \<open>None\<close> then.
\<close>

fun runCycles ::
  "real \<Rightarrow> laneEnv cycleEnv list \<Rightarrow> config schedState \<Rightarrow>
   (runExit \<times> config schedState \<times> cycleLog list) option" where
  "runCycles endTime [] st = None"
| "runCycles endTime (e # es) st =
     (if \<not> nowStart e < endTime then Some (DeadlineBeforeCycle, st, [])
      else
        (case runCycle endTime e st of
           (Some ex, st2, lg) \<Rightarrow> Some (ex, st2, [lg])
         | (None, st2, lg) \<Rightarrow>
             (case runCycles endTime es st2 of
                None \<Rightarrow> None
              | Some (ex, st3, lgs) \<Rightarrow> Some (ex, st3, lg # lgs))))"

text \<open>
  The object pushed on \<^verbatim>\<open>accountConfigs\<close> for an account, from the delay typed by the
  operator.
\<close>

definition newConfig :: "string \<Rightarrow> messageSource list \<Rightarrow> real \<Rightarrow> groupInfo list \<Rightarrow> config" where
  "newConfig acc sources forwardDelay groups =
     \<lparr>account = acc, messageSources = sources, initialDelay = forwardDelay,
      currentDelay = forwardDelay, writableGroups = groups\<rparr>"

text \<open>
  The forwarding process of \<^verbatim>\<open>standardForward\<close>, from \<^verbatim>\<open>let cycleCount = 0\<close> on:
  \<open>startTime\<close> is the first \<^verbatim>\<open>Date.now()\<close>.
\<close>

definition standardForward ::
  "config list \<Rightarrow> real \<Rightarrow> real \<Rightarrow> laneEnv cycleEnv list \<Rightarrow>
   (runExit \<times> config schedState \<times> cycleLog list) option" where
  "standardForward cfgs durationHours startTime envs =
     runCycles (startTime + durationHours * 60 * 60 * 1000) envs
       \<lparr>cycleCount = 0, totalSuccessCount = 0, totalFailCount = 0, accountConfigs = cfgs\<rparr>"

subsection \<open>The cycle loop of batchForward\<close>

text \<open>The object pushed on \<^verbatim>\<open>accountConfigs\<close> by \<^verbatim>\<open>batchForward\<close>.\<close>

record batchConfig =
  batchAccount :: string
  messageBatches :: "messageSource list list"
  initialMessageDelay :: real
  currentMessageDelay :: real
  initialBatchDelay :: real
  currentBatchDelay :: real
  batchWritableGroups :: "groupInfo list"

text \<open>
  What happens while one message of a batch is forwarded to one group: \<open>entityError\<close> is
  the message of the error thrown by \<^verbatim>\<open>client.getEntity\<close> (caught by
  \<^verbatim>\<open>catch (sourceError)\<close>); the other fields are those of the two delivery attempts.
\<close>

record messageEnv =
  entityError :: "string option"
  attempts :: destEnv

text \<open>
  What happens at one group: \<open>inputPeerError\<close> is the message of an error thrown while
  the input peer is built, which leaves the loop over the groups for
  \<^verbatim>\<open>catch (batchError)\<close>.
\<close>

record groupEnv =
  inputPeerError :: "string option"
  messagesEnv :: "nat \<Rightarrow> messageEnv"

record batchLaneEnv =
  batchConnectError :: "string option"
  groupEnvs :: "nat \<Rightarrow> groupEnv"

text \<open>
  The body of \<^verbatim>\<open>for (let i = 0; i < currentBatch.length; i++)\<close>: the configuration
  after it, whether the message counts as a success, and the actions. \<open>notLast\<close> says that
  \<^verbatim>\<open>i < currentBatch.length - 1\<close>.
\<close>

definition forwardBatchMessage ::
  "batchConfig \<Rightarrow> groupInfo \<Rightarrow> messageSource \<Rightarrow> bool \<Rightarrow> messageEnv \<Rightarrow> batchConfig \<times> bool \<times> event list" where
  "forwardBatchMessage cfg g src notLast menv =
     (case entityError menv of
        Some m \<Rightarrow> (cfg, False, [])
      | None \<Rightarrow>
         (let env = attempts menv in
          case attempt (messageId src) g (rnd1 env) (resp1 env) of
            (ev1, Delivered) \<Rightarrow>
              (cfg, True, ev1 @ (if notLast then [Sleep (currentMessageDelay cfg * 1000)] else []))
          | (ev1, Thrown m) \<Rightarrow>
             (case floodWaitMatch m of
                Some waitSeconds \<Rightarrow>
                  (let cfg' = cfg\<lparr>currentMessageDelay := currentMessageDelay cfg * 2\<rparr> in
                   case attempt (messageId src) g (rnd2 env) (resp2 env) of
                     (ev2, out) \<Rightarrow>
                       (cfg', out = Delivered,
                        ev1 @ [Sleep (real waitSeconds * 1000)] @ ev2 @
                        (if notLast then [Sleep (currentMessageDelay cfg' * 1000)] else [])))
              | None \<Rightarrow>
                  (cfg, False,
                   ev1 @ (if notLast then [Sleep (currentMessageDelay cfg * 1000)] else [])))))"

text \<open>
  The loop over the messages of the batch: the configuration, the successes and failures
  counted, the actions.
\<close>

fun forwardBatch ::
  "(nat \<Rightarrow> messageEnv) \<Rightarrow> nat \<Rightarrow> batchConfig \<Rightarrow> groupInfo \<Rightarrow> messageSource list \<Rightarrow>
   batchConfig \<times> nat \<times> nat \<times> event list" where
  "forwardBatch env i cfg g [] = (cfg, 0, 0, [])"
| "forwardBatch env i cfg g (src # srcs) =
     (case forwardBatchMessage cfg g src (srcs \<noteq> []) (env i) of
        (cfg1, ok, ev) \<Rightarrow>
          (case forwardBatch env (Suc i) cfg1 g srcs of
             (cfg2, s, f, evs) \<Rightarrow>
               (cfg2, (if ok then s + 1 else s), (if ok then f else f + 1), ev @ evs)))"

text \<open>
  The loop \<^verbatim>\<open>for (const groupInfo of config.writableGroups)\<close> of \<^verbatim>\<open>batchForward\<close>.
  The last component says that an error left the loop: an error thrown while the input
  peer is built, or the TypeError of \<^verbatim>\<open>currentBatch.length\<close> when
  \<^verbatim>\<open>config.messageBatches[batchIndex]\<close> is \<^verbatim>\<open>undefined\<close>. The groups of a
  configuration are distinct objects, so the test
  \<^verbatim>\<open>groupInfo !== config.writableGroups[config.writableGroups.length - 1]\<close> holds
  exactly when groups remain.
\<close>

fun forwardBatchGroups ::
  "nat \<Rightarrow> (nat \<Rightarrow> groupEnv) \<Rightarrow> nat \<Rightarrow> batchConfig \<Rightarrow> groupInfo list \<Rightarrow>
   batchConfig \<times> nat \<times> nat \<times> event list \<times> bool" where
  "forwardBatchGroups n env i cfg [] = (cfg, 0, 0, [], False)"
| "forwardBatchGroups n env i cfg (g # gs) =
     (case inputPeerError (env i) of
        Some m \<Rightarrow> (cfg, 0, 0, [], True)
      | None \<Rightarrow>
         (case selectSource n (messageBatches cfg) of
            None \<Rightarrow> (cfg, 0, 0, [], True)
          | Some currentBatch \<Rightarrow>
             (case forwardBatch (messagesEnv (env i)) 0 cfg g currentBatch of
                (cfg1, s, f, ev) \<Rightarrow>
                  (case forwardBatchGroups n env (Suc i) cfg1 gs of
                     (cfg2, s2, f2, evs, thrown) \<Rightarrow>
                       (cfg2, s + s2, f + f2,
                        ev @ (if gs \<noteq> [] then [Sleep (currentBatchDelay cfg1 * 1000)] else []) @ evs,
                        thrown)))))"

text \<open>
  What an account does in a cycle, as seen from outside: it opens a session or fails to,
  a task for its pass is started, it performs an action of its pass, its results are
  added to the totals, it closes its session.
\<close>

datatype action = SessionOpened | SessionFailed | TaskStarted | Action event | ResultsCounted | SessionClosed

text \<open>
  The body of \<^verbatim>\<open>for (const config of accountConfigs)\<close> of \<^verbatim>\<open>batchForward\<close> for the
  account of index \<open>j\<close>: the session is opened, the groups are served, the session is
  closed, on the normal path and in \<^verbatim>\<open>catch (batchError)\<close> alike.
\<close>

definition batchLane ::
  "nat \<Rightarrow> nat \<Rightarrow> batchConfig \<Rightarrow> batchLaneEnv \<Rightarrow> batchConfig \<times> nat \<times> nat \<times> (nat \<times> action) list" where
  "batchLane n j cfg le =
     (case batchConnectError le of
        Some m \<Rightarrow> (cfg, 0, 0, [(j, SessionFailed)])
      | None \<Rightarrow>
         (case forwardBatchGroups n (groupEnvs le) 0 cfg (batchWritableGroups cfg) of
            (cfg', s, f, evs, thrown) \<Rightarrow>
              (cfg', s, f, [(j, SessionOpened)] @ map (\<lambda>e. (j, Action e)) evs @ [(j, SessionClosed)])))"

fun batchLanes ::
  "nat \<Rightarrow> (nat \<Rightarrow> batchLaneEnv) \<Rightarrow> nat \<Rightarrow> batchConfig list \<Rightarrow>
   batchConfig list \<times> nat \<times> nat \<times> (nat \<times> action) list" where
  "batchLanes n env j [] = ([], 0, 0, [])"
| "batchLanes n env j (cfg # cfgs) =
     (case batchLane n j cfg (env j) of
        (cfg', s, f, tr) \<Rightarrow>
          (case batchLanes n env (Suc j) cfgs of
             (cfgs', s2, f2, tr2) \<Rightarrow> (cfg' # cfgs', s + s2, f + f2, tr @ tr2)))"

text \<open>
  One cycle of \<^verbatim>\<open>batchForward\<close>: the exit taken, the variables after it, and the actions
  of the accounts in the order in which they happen.
\<close>

definition batchCycle ::
  "real \<Rightarrow> batchLaneEnv cycleEnv \<Rightarrow> batchConfig schedState \<Rightarrow>
   runExit option \<times> batchConfig schedState \<times> (nat \<times> action) list" where
  "batchCycle endTime e st =
     (let st1 = st\<lparr>cycleCount := cycleCount st + 1\<rparr> in
      case batchLanes (cycleCount st1) (lanes e) 0 (accountConfigs st1) of
        (cfgs', s, f, tr) \<Rightarrow>
          (let st2 = st1\<lparr>totalSuccessCount := totalSuccessCount st1 + s,
                         totalFailCount := totalFailCount st1 + f,
                         accountConfigs := cfgs'\<rparr>
           in (if nowEnd e \<ge> endTime then Some DeadlineAfterDispatch else None, st2, tr)))"

fun batchCycles ::
  "real \<Rightarrow> batchLaneEnv cycleEnv list \<Rightarrow> batchConfig schedState \<Rightarrow>
   (runExit \<times> batchConfig schedState \<times> (nat \<times> action) list list) option" where
  "batchCycles endTime [] st = None"
| "batchCycles endTime (e # es) st =
     (if \<not> nowStart e < endTime then Some (DeadlineBeforeCycle, st, [])
      else
        (case batchCycle endTime e st of
           (Some ex, st2, tr) \<Rightarrow> Some (ex, st2, [tr])
         | (None, st2, tr) \<Rightarrow>
             (case batchCycles endTime es st2 of
                None \<Rightarrow> None
              | Some (ex, st3, trs) \<Rightarrow> Some (ex, st3, tr # trs))))"


definition batchForward ::
  "batchConfig list \<Rightarrow> real \<Rightarrow> real \<Rightarrow> batchLaneEnv cycleEnv list \<Rightarrow>
   (runExit \<times> batchConfig schedState \<times> (nat \<times> action) list list) option" where
  "batchForward cfgs durationHours startTime envs =
     batchCycles (startTime + durationHours * 60 * 60 * 1000) envs
       \<lparr>cycleCount = 0, totalSuccessCount = 0, totalFailCount = 0, accountConfigs = cfgs\<rparr>"

subsection \<open>The order of actions in a cycle of standardForward\<close>






subsection \<open>Notions used to state the properties\<close>

text \<open>
  The first attempt to deliver message \<open>msg\<close> at a destination fails with a rate limit: it
  throws an error whose message carries a wait (\<^verbatim>\<open>FLOOD_WAIT_\<close> followed by digits).
\<close>

definition rateLimited :: "int \<Rightarrow> groupInfo \<Rightarrow> destEnv \<Rightarrow> bool" where
  "rateLimited msg g env =
     (peerError env = None \<and>
      (case snd (attempt msg g (rnd1 env) (resp1 env)) of
         Delivered \<Rightarrow> False
       | Thrown m \<Rightarrow> floodWaitMatch m \<noteq> None))"

text \<open>The number of destinations of a pass, from index \<open>i\<close> on, that are rate limited.\<close>

fun hits :: "int \<Rightarrow> (nat \<Rightarrow> destEnv) \<Rightarrow> nat \<Rightarrow> groupInfo list \<Rightarrow> nat" where
  "hits msg env i [] = 0"
| "hits msg env i (g # gs) = (if rateLimited msg g (env i) then 1 else 0) + hits msg env (Suc i) gs"



text \<open>The successes and the failures among the results of all lanes of a cycle.\<close>

definition cycleSuccesses :: "cycleLog \<Rightarrow> nat" where
  "cycleSuccesses c = sum_list (map (\<lambda>l. length (filter success (results l))) (laneLogs c))"

definition cycleFailures :: "cycleLog \<Rightarrow> nat" where
  "cycleFailures c = sum_list (map (\<lambda>l. length (filter (\<lambda>r. \<not> success r) (results l))) (laneLogs c))"

text \<open>
  What the log of an account says when it is the log of configuration \<open>cfg\<close> in the
  cycle numbered \<open>n\<close>: a connected account uses the message source of index
  \<open>(n - 1) mod\<close> the number of its sources and has one result for each of its writable
  groups; an account that is not connected has no result.
\<close>

definition laneLogFor :: "nat \<Rightarrow> config \<Rightarrow> laneLog \<Rightarrow> bool" where
  "laneLogFor n cfg l =
     ((\<forall>src. status l = Connected src \<longrightarrow>
         messageSources cfg \<noteq> [] \<and>
         src = messageSources cfg ! ((n - 1) mod length (messageSources cfg))) \<and>
      (isConnected l \<longrightarrow> length (results l) = length (writableGroups cfg)) \<and>
      (\<not> isConnected l \<longrightarrow> results l = []))"

text \<open>The number of results, of either kind, of all lanes of a cycle.\<close>

definition cycleOutcomes :: "cycleLog \<Rightarrow> nat" where
  "cycleOutcomes c = sum_list (map (\<lambda>l. length (results l)) (laneLogs c))"




subsection \<open>Concrete inputs\<close>

text \<open>
  Small inputs on which the properties are exercised: groups without topics, an account
  with two message sources and two groups, destinations at which the delivery succeeds,
  is rate limited once, or is refused, and accounts that connect or fail to connect.
\<close>

definition plainGroup :: "int \<Rightarrow> string \<Rightarrow> groupInfo" where
  "plainGroup i name = \<lparr>entityId = i, entityUsername = name, hasTopics = False, topics = []\<rparr>"

definition twoSources :: "messageSource list" where
  "twoSources = [\<lparr>sourceChannelId = ''chanA'', messageId = 7\<rparr>,
                 \<lparr>sourceChannelId = ''chanB'', messageId = 8\<rparr>]"

definition demoConfig :: "real \<Rightarrow> config" where
  "demoConfig d = newConfig ''+100'' twoSources d [plainGroup 1 ''a'', plainGroup 2 ''b'']"

definition delivered :: destEnv where
  "delivered = \<lparr>peerError = None, rnd1 = 0, resp1 = Delivered, rnd2 = 0, resp2 = Delivered\<rparr>"

definition floodOnce :: destEnv where
  "floodOnce = \<lparr>peerError = None, rnd1 = 0, resp1 = Thrown ''FLOOD_WAIT_10'', rnd2 = 0,
                 resp2 = Delivered\<rparr>"

definition refused :: destEnv where
  "refused = \<lparr>peerError = None, rnd1 = 0, resp1 = Thrown ''CHAT_WRITE_FORBIDDEN'', rnd2 = 0,
               resp2 = Delivered\<rparr>"

definition laneUp :: "destEnv \<Rightarrow> laneEnv" where
  "laneUp d = \<lparr>connectError = None, sourceError = False, dests = (\<lambda>i. d)\<rparr>"

definition laneDown :: laneEnv where
  "laneDown = \<lparr>connectError = Some ''connect ETIMEDOUT'', sourceError = False,
                dests = (\<lambda>i. delivered)\<rparr>"

definition demoCycle :: "real \<Rightarrow> real \<Rightarrow> laneEnv \<Rightarrow> laneEnv cycleEnv" where
  "demoCycle t1 t2 le = \<lparr>nowStart = t1, lanes = (\<lambda>j. le), nowEnd = t2\<rparr>"







section \<open>Properties\<close>

subsection \<open>Topic selection\<close>



lemma getRandomOpenTopic_Some_open:
  assumes "getRandomOpenTopic ts r = Inr (Some i)"
  shows "\<exists>t \<in> set ts. \<not> closed t \<and> tid t = i"
proof -
  let ?os = "filter (\<lambda>t. \<not> closed t) ts"
  let ?k = "randomIndex r (length ?os)"
  from assms have k: "0 \<le> ?k" "?k < int (length ?os)" and i: "i = tid (?os ! nat ?k)"
    by (auto simp: getRandomOpenTopic_def Let_def split: if_splits)
  from k have "nat ?k < length ?os" by simp
  then have "?os ! nat ?k \<in> set ?os" by (rule nth_mem)
  then have "?os ! nat ?k \<in> set ts" "\<not> closed (?os ! nat ?k)" by auto
  with i show ?thesis by blast
qed






subsection \<open>One destination and one pass\<close>

lemma forwardGroup_config:
  "fst (forwardGroup msg cfg g env) =
     (if rateLimited msg g env then cfg\<lparr>currentDelay := currentDelay cfg * 2\<rparr> else cfg)"
  by (auto simp: forwardGroup_def rateLimited_def Let_def
           split: option.splits prod.splits response.splits)

lemma forwardGroups_config:
  "fst (forwardGroups msg env i cfg gs) =
     cfg\<lparr>currentDelay := currentDelay cfg * 2 ^ hits msg env i gs\<rparr>"
proof (induction gs arbitrary: i cfg)
  case Nil
  show ?case by simp
next
  case (Cons g gs)
  obtain cfg1 r ev where s1: "forwardGroup msg cfg g (env i) = (cfg1, r, ev)"
    by (cases "forwardGroup msg cfg g (env i)") auto
  obtain cfg2 rs evs where s2: "forwardGroups msg env (Suc i) cfg1 gs = (cfg2, rs, evs)"
    by (cases "forwardGroups msg env (Suc i) cfg1 gs") auto
  have c1: "cfg1 = (if rateLimited msg g (env i) then cfg\<lparr>currentDelay := currentDelay cfg * 2\<rparr> else cfg)"
    using forwardGroup_config [of msg cfg g "env i"] s1 by simp
  have c2: "cfg2 = cfg1\<lparr>currentDelay := currentDelay cfg1 * 2 ^ hits msg env (Suc i) gs\<rparr>"
    using Cons.IH [of "Suc i" cfg1] s2 by simp
  show ?case using s1 s2 c1 c2 by (simp add: mult.assoc)
qed

lemma forwardGroups_length:
  "length (fst (snd (forwardGroups msg env i cfg gs))) = length gs"
proof (induction gs arbitrary: i cfg)
  case Nil
  show ?case by simp
next
  case (Cons g gs)
  obtain cfg1 r ev where s1: "forwardGroup msg cfg g (env i) = (cfg1, r, ev)"
    by (cases "forwardGroup msg cfg g (env i)") auto
  obtain cfg2 rs evs where s2: "forwardGroups msg env (Suc i) cfg1 gs = (cfg2, rs, evs)"
    by (cases "forwardGroups msg env (Suc i) cfg1 gs") auto
  from Cons.IH [of "Suc i" cfg1] s2 have "length rs = length gs" by simp
  with s1 s2 show ?case by simp
qed







text \<open>
  C10. A destination with topics whose first attempt is rate limited: both attempts draw
  their topic themselves, the first from the random number \<open>rnd1\<close>, the retry from
  \<open>rnd2\<close>; the topic of the retry is the one selected for \<open>rnd2\<close>, it is never a closed
  topic, and it can differ from the topic of the first attempt: there are a topic list
  and two random numbers for which the two selections return different topics.
\<close>

theorem retry_selects_topic_anew:
  assumes ht: "hasTopics g"
    and pe: "peerError env = None"
    and r1: "resp1 env = Thrown m"
    and w: "floodWaitMatch m = Some w"
    and t1: "getRandomOpenTopic (topics g) (rnd1 env) = Inr t1"
    and t2: "getRandomOpenTopic (topics g) (rnd2 env) = Inr t2"
  shows "snd (snd (forwardGroup msg cfg g env)) =
           [Invoke (entityId g) msg t1, Sleep (real w * 1000),
            Invoke (entityId g) msg t2, Sleep (currentDelay cfg * 2 * 1000)] \<and>
         (\<forall>i. t2 = Some i \<longrightarrow> (\<exists>t \<in> set (topics g). \<not> closed t \<and> tid t = i)) \<and>
         (\<exists>ts ra rb a b. 0 \<le> ra \<and> ra < 1 \<and> 0 \<le> rb \<and> rb < 1 \<and>
            getRandomOpenTopic ts ra = Inr (Some a) \<and>
            getRandomOpenTopic ts rb = Inr (Some b) \<and> a \<noteq> b)"
proof (intro conjI)
  have a1: "attempt msg g (rnd1 env) (resp1 env) = ([Invoke (entityId g) msg t1], Thrown m)"
    using ht t1 r1 by (simp add: attempt_def)
  have a2: "attempt msg g (rnd2 env) (resp2 env) = ([Invoke (entityId g) msg t2], resp2 env)"
    using ht t2 by (simp add: attempt_def)
  show "snd (snd (forwardGroup msg cfg g env)) =
           [Invoke (entityId g) msg t1, Sleep (real w * 1000),
            Invoke (entityId g) msg t2, Sleep (currentDelay cfg * 2 * 1000)]"
    using pe a1 a2 w by (simp add: forwardGroup_def Let_def split: response.splits)
  show "\<forall>i. t2 = Some i \<longrightarrow> (\<exists>t \<in> set (topics g). \<not> closed t \<and> tid t = i)"
    using t2 getRandomOpenTopic_Some_open by blast
  let ?ts = "[\<lparr>tid = 1, title = ''a'', closed = False\<rparr>, \<lparr>tid = 3, title = ''c'', closed = False\<rparr>]"
  have "getRandomOpenTopic ?ts 0 = Inr (Some 1)"
    by (simp add: getRandomOpenTopic_def randomIndex_def)
  moreover have "getRandomOpenTopic ?ts (1 / 2) = Inr (Some 3)"
    by (simp add: getRandomOpenTopic_def randomIndex_def)
  ultimately have "(0::real) \<le> 0 \<and> (0::real) < 1 \<and> (0::real) \<le> 1 / 2 \<and> (1 / 2 :: real) < 1 \<and>
      getRandomOpenTopic ?ts 0 = Inr (Some 1) \<and> getRandomOpenTopic ?ts (1 / 2) = Inr (Some 3) \<and>
      (1::int) \<noteq> 3"
    by simp
  then show "\<exists>ts ra rb a b. 0 \<le> ra \<and> ra < 1 \<and> 0 \<le> rb \<and> rb < 1 \<and>
            getRandomOpenTopic ts ra = Inr (Some a) \<and>
            getRandomOpenTopic ts rb = Inr (Some b) \<and> a \<noteq> b"
    by blast
qed

theorem retry_selects_topic_anew_witness:
  "snd (snd (forwardGroup 7
     \<lparr>account = ''+100'', messageSources = [], initialDelay = 1, currentDelay = 1, writableGroups = []\<rparr>
     \<lparr>entityId = 5, entityUsername = ''grp'', hasTopics = True,
      topics = [\<lparr>tid = 1, title = ''a'', closed = False\<rparr>, \<lparr>tid = 2, title = ''b'', closed = True\<rparr>,
                \<lparr>tid = 3, title = ''c'', closed = False\<rparr>]\<rparr>
     \<lparr>peerError = None, rnd1 = 0, resp1 = Thrown ''FLOOD_WAIT_10'', rnd2 = 1 / 2, resp2 = Delivered\<rparr>)) =
   [Invoke 5 7 (Some 1), Sleep 10000, Invoke 5 7 (Some 3), Sleep 2000]"
proof -
  let ?cfg = "\<lparr>account = ''+100'', messageSources = [], initialDelay = 1, currentDelay = 1, writableGroups = []\<rparr>"
  let ?ts = "[\<lparr>tid = 1, title = ''a'', closed = False\<rparr>, \<lparr>tid = 2, title = ''b'', closed = True\<rparr>,
              \<lparr>tid = 3, title = ''c'', closed = False\<rparr>]"
  let ?g = "\<lparr>entityId = 5, entityUsername = ''grp'', hasTopics = True, topics = ?ts\<rparr>"
  let ?e = "\<lparr>peerError = None, rnd1 = 0, resp1 = Thrown ''FLOOD_WAIT_10'', rnd2 = 1 / 2, resp2 = Delivered\<rparr>"
  have ht: "hasTopics ?g" and pe: "peerError ?e = None"
    and r1: "resp1 ?e = Thrown ''FLOOD_WAIT_10''" by simp_all
  have w: "floodWaitMatch ''FLOOD_WAIT_10'' = Some 10" by code_simp
  have t1: "getRandomOpenTopic (topics ?g) (rnd1 ?e) = Inr (Some 1)"
    by (simp add: getRandomOpenTopic_def randomIndex_def)
  have t2: "getRandomOpenTopic (topics ?g) (rnd2 ?e) = Inr (Some 3)"
    by (simp add: getRandomOpenTopic_def randomIndex_def)
  from retry_selects_topic_anew [OF ht pe r1 w t1 t2, of 7 ?cfg, THEN conjunct1]
  show ?thesis by simp
qed

text \<open>
  C3. A pass over three destinations that all succeed, with a delay of one second: the
  results are three successes and no failure, and the pass sleeps three times, the third
  time after the last destination.
\<close>

theorem forwardWithClient_sleeps_after_last:
  "forwardWithClient (\<lambda>i. \<lparr>peerError = None, rnd1 = 0, resp1 = Delivered, rnd2 = 0, resp2 = Delivered\<rparr>)
     (newConfig ''+100'' [\<lparr>sourceChannelId = ''src'', messageId = 7\<rparr>] 1
        [\<lparr>entityId = 1, entityUsername = ''a'', hasTopics = False, topics = []\<rparr>,
         \<lparr>entityId = 2, entityUsername = ''b'', hasTopics = False, topics = []\<rparr>,
         \<lparr>entityId = 3, entityUsername = ''c'', hasTopics = False, topics = []\<rparr>]) 7 =
   (newConfig ''+100'' [\<lparr>sourceChannelId = ''src'', messageId = 7\<rparr>] 1
        [\<lparr>entityId = 1, entityUsername = ''a'', hasTopics = False, topics = []\<rparr>,
         \<lparr>entityId = 2, entityUsername = ''b'', hasTopics = False, topics = []\<rparr>,
         \<lparr>entityId = 3, entityUsername = ''c'', hasTopics = False, topics = []\<rparr>],
    [\<lparr>success = True, group = Username ''a'', error = None\<rparr>,
     \<lparr>success = True, group = Username ''b'', error = None\<rparr>,
     \<lparr>success = True, group = Username ''c'', error = None\<rparr>],
    [Invoke 1 7 None, Sleep 1000, Invoke 2 7 None, Sleep 1000, Invoke 3 7 None, Sleep 1000])"
  by (simp add: forwardWithClient_def newConfig_def forwardGroup_def attempt_def okResult_def
                groupLabel_def)

subsection \<open>Source selection and the lanes of a cycle\<close>

lemma jsRemainder_nonneg:
  assumes "0 \<le> a" "0 < b"
  shows "jsRemainder a b = Some (a mod b)"
proof (cases "a = 0")
  case True
  with assms show ?thesis by (simp add: jsRemainder_def)
next
  case False
  with assms have "sgn a = 1" by simp
  with assms show ?thesis by (simp add: jsRemainder_def)
qed

lemma messageIndex_mod:
  assumes "1 \<le> n" "sources \<noteq> []"
  shows "messageIndex n sources = Some (int ((n - 1) mod length sources))"
proof -
  have a: "0 \<le> int n - 1" using assms by linarith
  have b: "0 < int (length sources)" using assms by simp
  have e: "int (n - 1) = int n - 1" using assms by linarith
  have "int ((n - 1) mod length sources) = int (n - 1) mod int (length sources)"
    by (rule zmod_int)
  then have m: "(int n - 1) mod int (length sources) = int ((n - 1) mod length sources)"
    unfolding e by (rule sym)
  from jsRemainder_nonneg [OF a b] show ?thesis
    unfolding messageIndex_def m .
qed

lemma selectSource_mod:
  assumes "1 \<le> n" "sources \<noteq> []"
  shows "selectSource n sources = Some (sources ! ((n - 1) mod length sources))"
proof -
  have "(n - 1) mod length sources < length sources" using assms by simp
  with messageIndex_mod [OF assms] show ?thesis by (simp add: selectSource_def)
qed

lemma selectSource_Some:
  assumes "selectSource n sources = Some src" "1 \<le> n"
  shows "sources \<noteq> [] \<and> src = sources ! ((n - 1) mod length sources)"
proof -
  have ne: "sources \<noteq> []"
  proof
    assume "sources = []"
    then have "selectSource n sources = None"
      by (simp add: selectSource_def messageIndex_def jsRemainder_def)
    with assms show False by simp
  qed
  with selectSource_mod [OF assms(2) ne] assms(1) show ?thesis by simp
qed

lemma runLane_config:
  "\<exists>k. fst (runLane n cfg le) = cfg\<lparr>currentDelay := currentDelay cfg * 2 ^ k\<rparr>"
proof (cases "connectLane n cfg le")
  case (Connected src)
  obtain cfg' rs evs where f: "forwardWithClient (dests le) cfg (messageId src) = (cfg', rs, evs)"
    by (cases "forwardWithClient (dests le) cfg (messageId src)") auto
  then have "cfg' = cfg\<lparr>currentDelay := currentDelay cfg * 2 ^ hits (messageId src) (dests le) 0 (writableGroups cfg)\<rparr>"
    using forwardGroups_config [of "messageId src" "dests le" 0 cfg "writableGroups cfg"]
    by (simp add: forwardWithClient_def)
  with Connected f show ?thesis by (auto simp: runLane_def)
next
  case ConnectFailed
  then have "fst (runLane n cfg le) = cfg\<lparr>currentDelay := currentDelay cfg * 2 ^ 0\<rparr>"
    by (simp add: runLane_def)
  then show ?thesis by blast
next
  case SourceFailed
  then have "fst (runLane n cfg le) = cfg\<lparr>currentDelay := currentDelay cfg * 2 ^ 0\<rparr>"
    by (simp add: runLane_def)
  then show ?thesis by blast
qed

lemma runLane_status: "status (snd (runLane n cfg le)) = connectLane n cfg le"
  by (cases "connectLane n cfg le") (auto simp: runLane_def split: prod.splits)

lemma runLane_results_length:
  "isConnected (snd (runLane n cfg le)) \<Longrightarrow>
   length (results (snd (runLane n cfg le))) = length (writableGroups cfg)"
proof (cases "connectLane n cfg le")
  case (Connected src)
  obtain cfg' rs evs where f: "forwardWithClient (dests le) cfg (messageId src) = (cfg', rs, evs)"
    by (cases "forwardWithClient (dests le) cfg (messageId src)") auto
  then have "length rs = length (writableGroups cfg)"
    using forwardGroups_length [of "messageId src" "dests le" 0 cfg "writableGroups cfg"]
    by (simp add: forwardWithClient_def)
  with Connected f show ?thesis by (simp add: runLane_def)
next
  case ConnectFailed
  assume "isConnected (snd (runLane n cfg le))"
  with ConnectFailed show ?thesis by (simp add: runLane_def isConnected_def)
next
  case SourceFailed
  assume "isConnected (snd (runLane n cfg le))"
  with SourceFailed show ?thesis by (simp add: runLane_def isConnected_def)
qed

lemma runLane_results_skipped:
  "\<not> isConnected (snd (runLane n cfg le)) \<Longrightarrow> results (snd (runLane n cfg le)) = []"
  by (cases "connectLane n cfg le") (auto simp: runLane_def isConnected_def split: prod.splits)

lemma runLanes_length: "length (runLanes n env j cfgs) = length cfgs"
  by (induction cfgs arbitrary: j) auto

lemma runLanes_nth:
  "i < length cfgs \<Longrightarrow> runLanes n env j cfgs ! i = runLane n (cfgs ! i) (env (j + i))"
proof (induction cfgs arbitrary: i j)
  case Nil
  then show ?case by simp
next
  case (Cons c cs)
  show ?case
  proof (cases i)
    case 0
    then show ?thesis by simp
  next
    case (Suc i')
    with Cons.prems have "i' < length cs" by simp
    from Cons.IH [OF this, of "Suc j"] Suc show ?thesis by simp
  qed
qed

lemma addResults_configs: "accountConfigs (addResults st rs) = accountConfigs st"
  by (induction rs arbitrary: st) auto

lemma addResults_cycleCount: "cycleCount (addResults st rs) = cycleCount st"
  by (induction rs arbitrary: st) auto

lemma addResults_success:
  "totalSuccessCount (addResults st rs) =
     totalSuccessCount st + sum_list (map (\<lambda>r. length (filter success r)) rs)"
  by (induction rs arbitrary: st) auto

lemma addResults_fail:
  "totalFailCount (addResults st rs) =
     totalFailCount st + sum_list (map (\<lambda>r. length (filter (\<lambda>x. \<not> success x) r)) rs)"
  by (induction rs arbitrary: st) auto

text \<open>The results of the lanes that are not connected are empty, so they add nothing.\<close>

lemma sum_connected:
  assumes "f [] = (0::nat)" and "\<forall>l \<in> set ls. \<not> isConnected l \<longrightarrow> results l = []"
  shows "sum_list (map f (map results (filter isConnected ls))) =
         sum_list (map (\<lambda>l. f (results l)) ls)"
  using assms by (induction ls) auto

subsection \<open>One cycle\<close>

lemma runCycle_cycleCount: "cycleCount (fst (snd (runCycle endTime e st))) = cycleCount st + 1"
  by (simp add: runCycle_def Let_def addResults_cycleCount)

lemma runCycle_log:
  "cycleNo (snd (snd (runCycle endTime e st))) = cycleCount st + 1 \<and>
   startedAt (snd (snd (runCycle endTime e st))) = nowStart e \<and>
   laneLogs (snd (snd (runCycle endTime e st))) =
     map snd (runLanes (cycleCount st + 1) (lanes e) 0 (accountConfigs st))"
  by (simp add: runCycle_def Let_def)

lemma runCycle_exit:
  "fst (runCycle endTime e st) =
     (if \<forall>l \<in> set (laneLogs (snd (snd (runCycle endTime e st)))). \<not> isConnected l
      then Some NoAccountConnected
      else if nowEnd e \<ge> endTime then Some DeadlineAfterDispatch else None)"
  by (simp add: runCycle_def Let_def filter_empty_conv)

lemma runCycle_configs_length:
  "length (accountConfigs (fst (snd (runCycle endTime e st)))) = length (accountConfigs st)"
  by (simp add: runCycle_def Let_def addResults_configs runLanes_length)

lemma runCycle_config_nth:
  assumes "j < length (accountConfigs st)"
  shows "\<exists>k. accountConfigs (fst (snd (runCycle endTime e st))) ! j =
              (accountConfigs st ! j)\<lparr>currentDelay := currentDelay (accountConfigs st ! j) * 2 ^ k\<rparr>"
proof (cases "length (filter isConnected (map snd (runLanes (cycleCount st + 1) (lanes e) 0 (accountConfigs st)))) = 0")
  case True
  then have "accountConfigs (fst (snd (runCycle endTime e st))) ! j =
             (accountConfigs st ! j)\<lparr>currentDelay := currentDelay (accountConfigs st ! j) * 2 ^ 0\<rparr>"
    by (simp add: runCycle_def Let_def)
  then show ?thesis by blast
next
  case False
  then have "accountConfigs (fst (snd (runCycle endTime e st))) ! j =
             fst (runLane (cycleCount st + 1) (accountConfigs st ! j) (lanes e j))"
    using assms by (simp add: runCycle_def Let_def addResults_configs runLanes_length runLanes_nth)
  then show ?thesis
    using runLane_config [of "cycleCount st + 1" "accountConfigs st ! j" "lanes e j"] by simp
qed

lemma runLanes_skipped_results:
  "\<forall>l \<in> set (map snd (runLanes n env j cfgs)). \<not> isConnected l \<longrightarrow> results l = []"
  by (induction cfgs arbitrary: j) (auto simp: runLane_results_skipped)

lemma runCycle_success:
  "totalSuccessCount (fst (snd (runCycle endTime e st))) =
     totalSuccessCount st + cycleSuccesses (snd (snd (runCycle endTime e st)))"
proof -
  let ?ls = "map snd (runLanes (cycleCount st + 1) (lanes e) 0 (accountConfigs st))"
  have sk: "\<forall>l \<in> set ?ls. \<not> isConnected l \<longrightarrow> results l = []"
    by (rule runLanes_skipped_results)
  show ?thesis
  proof (cases "length (filter isConnected ?ls) = 0")
    case True
    then have "\<forall>l \<in> set ?ls. \<not> isConnected l" by (simp add: filter_empty_conv)
    with sk have "\<forall>l \<in> set ?ls. results l = []" by blast
    then have "sum_list (map (\<lambda>l. length (filter success (results l))) ?ls) = 0"
      by (induction ?ls) auto
    with True show ?thesis by (simp add: runCycle_def Let_def cycleSuccesses_def)
  next
    case False
    have "sum_list (map (\<lambda>r. length (filter success r)) (map results (filter isConnected ?ls))) =
          sum_list (map (\<lambda>l. length (filter success (results l))) ?ls)"
      using sum_connected [of "\<lambda>r. length (filter success r)" ?ls] sk by simp
    with False show ?thesis
      by (simp add: runCycle_def Let_def cycleSuccesses_def addResults_success)
  qed
qed

lemma runCycle_fail:
  "totalFailCount (fst (snd (runCycle endTime e st))) =
     totalFailCount st + cycleFailures (snd (snd (runCycle endTime e st)))"
proof -
  let ?ls = "map snd (runLanes (cycleCount st + 1) (lanes e) 0 (accountConfigs st))"
  have sk: "\<forall>l \<in> set ?ls. \<not> isConnected l \<longrightarrow> results l = []"
    by (rule runLanes_skipped_results)
  show ?thesis
  proof (cases "length (filter isConnected ?ls) = 0")
    case True
    then have "\<forall>l \<in> set ?ls. \<not> isConnected l" by (simp add: filter_empty_conv)
    with sk have "\<forall>l \<in> set ?ls. results l = []" by blast
    then have "sum_list (map (\<lambda>l. length (filter (\<lambda>r. \<not> success r) (results l))) ?ls) = 0"
      by (induction ?ls) auto
    with True show ?thesis by (simp add: runCycle_def Let_def cycleFailures_def)
  next
    case False
    have "sum_list (map (\<lambda>r. length (filter (\<lambda>x. \<not> success x) r)) (map results (filter isConnected ?ls))) =
          sum_list (map (\<lambda>l. length (filter (\<lambda>x. \<not> success x) (results l))) ?ls)"
      using sum_connected [of "\<lambda>r. length (filter (\<lambda>x. \<not> success x) r)" ?ls] sk by simp
    with False show ?thesis
      by (simp add: runCycle_def Let_def cycleFailures_def addResults_fail)
  qed
qed

subsection \<open>One step of the loop\<close>

lemma runCycles_Cons:
  assumes "runCycles endTime (e # es) st = Some (ex, st', lgs)"
  shows "(\<not> nowStart e < endTime \<and> ex = DeadlineBeforeCycle \<and> st' = st \<and> lgs = []) \<or>
         (nowStart e < endTime \<and> fst (runCycle endTime e st) = Some ex \<and>
          st' = fst (snd (runCycle endTime e st)) \<and> lgs = [snd (snd (runCycle endTime e st))]) \<or>
         (nowStart e < endTime \<and> fst (runCycle endTime e st) = None \<and>
          (\<exists>lgs'. runCycles endTime es (fst (snd (runCycle endTime e st))) = Some (ex, st', lgs') \<and>
                  lgs = snd (snd (runCycle endTime e st)) # lgs'))"
  using assms by (auto split: if_splits prod.splits option.splits)

subsection \<open>The loop over the cycles\<close>

lemma connectLane_Connected:
  assumes "connectLane n cfg le = Connected src" "1 \<le> n"
  shows "messageSources cfg \<noteq> [] \<and>
         src = messageSources cfg ! ((n - 1) mod length (messageSources cfg))"
proof -
  from assms(1) have "selectSource n (messageSources cfg) = Some src"
    by (auto simp: connectLane_def split: option.splits if_splits)
  from selectSource_Some [OF this assms(2)] show ?thesis .
qed

lemma runLane_laneLogFor:
  assumes "1 \<le> n"
  shows "laneLogFor n cfg (snd (runLane n cfg le))"
  unfolding laneLogFor_def
proof (intro conjI allI impI)
  fix src
  assume "status (snd (runLane n cfg le)) = Connected src"
  then have c: "connectLane n cfg le = Connected src" by (simp add: runLane_status)
  from connectLane_Connected [OF c assms]
  show "messageSources cfg \<noteq> []"
    and "src = messageSources cfg ! ((n - 1) mod length (messageSources cfg))" by simp_all
next
  assume "isConnected (snd (runLane n cfg le))"
  then show "length (results (snd (runLane n cfg le))) = length (writableGroups cfg)"
    by (rule runLane_results_length)
next
  assume "\<not> isConnected (snd (runLane n cfg le))"
  then show "results (snd (runLane n cfg le)) = []" by (rule runLane_results_skipped)
qed

lemma laneLogFor_ratchet:
  "laneLogFor n (cfg\<lparr>currentDelay := d\<rparr>) l = laneLogFor n cfg l"
  by (simp add: laneLogFor_def)

lemma runCycle_laneLogs:
  "length (laneLogs (snd (snd (runCycle endTime e st)))) = length (accountConfigs st) \<and>
   (\<forall>j < length (accountConfigs st).
      laneLogFor (cycleCount st + 1) (accountConfigs st ! j)
        (laneLogs (snd (snd (runCycle endTime e st))) ! j))"
proof (intro conjI allI impI)
  show "length (laneLogs (snd (snd (runCycle endTime e st)))) = length (accountConfigs st)"
    by (simp add: runCycle_log runLanes_length)
next
  fix j assume j: "j < length (accountConfigs st)"
  have n: "1 \<le> cycleCount st + 1" by simp
  have "laneLogs (snd (snd (runCycle endTime e st))) ! j =
        snd (runLane (cycleCount st + 1) (accountConfigs st ! j) (lanes e j))"
    using j by (simp add: runCycle_log runLanes_length runLanes_nth)
  with runLane_laneLogFor [OF n, of "accountConfigs st ! j" "lanes e j"]
  show "laneLogFor (cycleCount st + 1) (accountConfigs st ! j)
          (laneLogs (snd (snd (runCycle endTime e st))) ! j)"
    by simp
qed

lemma runCycles_logs:
  "runCycles endTime envs st = Some (ex, st', lgs) \<Longrightarrow>
   cycleCount st' = cycleCount st + length lgs \<and>
   (\<forall>k < length lgs.
      cycleNo (lgs ! k) = cycleCount st + k + 1 \<and>
      startedAt (lgs ! k) < endTime \<and>
      length (laneLogs (lgs ! k)) = length (accountConfigs st) \<and>
      (\<forall>j < length (accountConfigs st).
         laneLogFor (cycleNo (lgs ! k)) (accountConfigs st ! j) (laneLogs (lgs ! k) ! j)))"
proof (induction envs arbitrary: st lgs)
  case Nil
  then show ?case by simp
next
  case (Cons e es)
  let ?st2 = "fst (snd (runCycle endTime e st))"
  let ?lg = "snd (snd (runCycle endTime e st))"
  have lg: "cycleNo ?lg = cycleCount st + 1" "startedAt ?lg = nowStart e"
    by (simp_all add: runCycle_log)
  have ll: "length (laneLogs ?lg) = length (accountConfigs st)"
    and lf: "\<forall>j < length (accountConfigs st).
               laneLogFor (cycleCount st + 1) (accountConfigs st ! j) (laneLogs ?lg ! j)"
    using runCycle_laneLogs [of endTime e st] by simp_all
  have cc: "cycleCount ?st2 = cycleCount st + 1" by (rule runCycle_cycleCount)
  have len2: "length (accountConfigs ?st2) = length (accountConfigs st)"
    by (rule runCycle_configs_length)
  from runCycles_Cons [OF Cons.prems]
  consider (before) "\<not> nowStart e < endTime" "st' = st" "lgs = []"
    | (exit) "nowStart e < endTime" "fst (runCycle endTime e st) = Some ex" "st' = ?st2" "lgs = [?lg]"
    | (loop) lgs' where "nowStart e < endTime" "runCycles endTime es ?st2 = Some (ex, st', lgs')"
        "lgs = ?lg # lgs'"
    by blast
  then show ?case
  proof cases
    case before
    then show ?thesis by simp
  next
    case exit
    with lg ll lf cc show ?thesis by simp
  next
    case loop
    note ih = Cons.IH [OF loop(2)]
    have count: "cycleCount st' = cycleCount st + length lgs" using ih cc loop(3) by simp
    have "\<forall>k < length lgs.
      cycleNo (lgs ! k) = cycleCount st + k + 1 \<and>
      startedAt (lgs ! k) < endTime \<and>
      length (laneLogs (lgs ! k)) = length (accountConfigs st) \<and>
      (\<forall>j < length (accountConfigs st).
         laneLogFor (cycleNo (lgs ! k)) (accountConfigs st ! j) (laneLogs (lgs ! k) ! j))"
    proof (intro allI impI)
      fix k assume k: "k < length lgs"
      show "cycleNo (lgs ! k) = cycleCount st + k + 1 \<and>
        startedAt (lgs ! k) < endTime \<and>
        length (laneLogs (lgs ! k)) = length (accountConfigs st) \<and>
        (\<forall>j < length (accountConfigs st).
           laneLogFor (cycleNo (lgs ! k)) (accountConfigs st ! j) (laneLogs (lgs ! k) ! j))"
      proof (cases k)
        case 0
        with loop lg ll lf show ?thesis by simp
      next
        case (Suc k')
        with k loop(3) have k': "k' < length lgs'" by simp
        from ih k' have a: "cycleNo (lgs' ! k') = cycleCount ?st2 + k' + 1"
          and b: "startedAt (lgs' ! k') < endTime"
          and c: "length (laneLogs (lgs' ! k')) = length (accountConfigs ?st2)"
          and d: "\<forall>j < length (accountConfigs ?st2).
                    laneLogFor (cycleNo (lgs' ! k')) (accountConfigs ?st2 ! j) (laneLogs (lgs' ! k') ! j)"
          by blast+
        have d': "\<forall>j < length (accountConfigs st).
                    laneLogFor (cycleNo (lgs' ! k')) (accountConfigs st ! j) (laneLogs (lgs' ! k') ! j)"
        proof (intro allI impI)
          fix j assume j: "j < length (accountConfigs st)"
          from runCycle_config_nth [OF j, of endTime e] obtain p where
            "accountConfigs ?st2 ! j =
               (accountConfigs st ! j)\<lparr>currentDelay := currentDelay (accountConfigs st ! j) * 2 ^ p\<rparr>"
            by blast
          moreover from d j len2
          have "laneLogFor (cycleNo (lgs' ! k')) (accountConfigs ?st2 ! j) (laneLogs (lgs' ! k') ! j)"
            by simp
          ultimately show "laneLogFor (cycleNo (lgs' ! k')) (accountConfigs st ! j) (laneLogs (lgs' ! k') ! j)"
            by (simp add: laneLogFor_ratchet)
        qed
        from a b c d' cc len2 Suc loop(3) show ?thesis by simp
      qed
    qed
    with count show ?thesis by blast
  qed
qed

lemma runCycles_totals:
  "runCycles endTime envs st = Some (ex, st', lgs) \<Longrightarrow>
   totalSuccessCount st' = totalSuccessCount st + sum_list (map cycleSuccesses lgs) \<and>
   totalFailCount st' = totalFailCount st + sum_list (map cycleFailures lgs)"
proof (induction envs arbitrary: st lgs)
  case Nil
  then show ?case by simp
next
  case (Cons e es)
  let ?st2 = "fst (snd (runCycle endTime e st))"
  let ?lg = "snd (snd (runCycle endTime e st))"
  from runCycles_Cons [OF Cons.prems]
  consider (before) "\<not> nowStart e < endTime" "st' = st" "lgs = []"
    | (exit) "nowStart e < endTime" "fst (runCycle endTime e st) = Some ex" "st' = ?st2" "lgs = [?lg]"
    | (loop) lgs' where "nowStart e < endTime" "runCycles endTime es ?st2 = Some (ex, st', lgs')"
        "lgs = ?lg # lgs'"
    by blast
  then show ?case
  proof cases
    case before
    then show ?thesis by simp
  next
    case exit
    then show ?thesis by (simp add: runCycle_success runCycle_fail)
  next
    case loop
    from Cons.IH [OF loop(2)] loop(3) show ?thesis
      by (simp add: runCycle_success runCycle_fail)
  qed
qed

lemma runCycles_configs:
  "runCycles endTime envs st = Some (ex, st', lgs) \<Longrightarrow>
   length (accountConfigs st') = length (accountConfigs st) \<and>
   (\<forall>j < length (accountConfigs st).
      \<exists>k. accountConfigs st' ! j =
            (accountConfigs st ! j)\<lparr>currentDelay := currentDelay (accountConfigs st ! j) * 2 ^ k\<rparr>)"
proof (induction envs arbitrary: st lgs)
  case Nil
  then show ?case by simp
next
  case (Cons e es)
  let ?st2 = "fst (snd (runCycle endTime e st))"
  let ?lg = "snd (snd (runCycle endTime e st))"
  have len2: "length (accountConfigs ?st2) = length (accountConfigs st)"
    by (rule runCycle_configs_length)
  have refl: "\<forall>j < length (accountConfigs st).
      \<exists>k. accountConfigs st ! j =
            (accountConfigs st ! j)\<lparr>currentDelay := currentDelay (accountConfigs st ! j) * 2 ^ k\<rparr>"
  proof (intro allI impI)
    fix j
    have "accountConfigs st ! j =
            (accountConfigs st ! j)\<lparr>currentDelay := currentDelay (accountConfigs st ! j) * 2 ^ 0\<rparr>"
      by simp
    then show "\<exists>k. accountConfigs st ! j =
            (accountConfigs st ! j)\<lparr>currentDelay := currentDelay (accountConfigs st ! j) * 2 ^ k\<rparr>"
      by blast
  qed
  from runCycles_Cons [OF Cons.prems]
  consider (before) "\<not> nowStart e < endTime" "st' = st" "lgs = []"
    | (exit) "nowStart e < endTime" "fst (runCycle endTime e st) = Some ex" "st' = ?st2" "lgs = [?lg]"
    | (loop) lgs' where "nowStart e < endTime" "runCycles endTime es ?st2 = Some (ex, st', lgs')"
        "lgs = ?lg # lgs'"
    by blast
  then show ?case
  proof cases
    case before
    with refl show ?thesis by simp
  next
    case exit
    with len2 runCycle_config_nth [of _ st endTime e] show ?thesis by simp
  next
    case loop
    note ih = Cons.IH [OF loop(2)]
    have "\<forall>j < length (accountConfigs st).
      \<exists>k. accountConfigs st' ! j =
            (accountConfigs st ! j)\<lparr>currentDelay := currentDelay (accountConfigs st ! j) * 2 ^ k\<rparr>"
    proof (intro allI impI)
      fix j assume j: "j < length (accountConfigs st)"
      from runCycle_config_nth [OF j, of endTime e] obtain p where
        p: "accountConfigs ?st2 ! j =
               (accountConfigs st ! j)\<lparr>currentDelay := currentDelay (accountConfigs st ! j) * 2 ^ p\<rparr>"
        by blast
      from ih j len2 obtain q where
        q: "accountConfigs st' ! j =
               (accountConfigs ?st2 ! j)\<lparr>currentDelay := currentDelay (accountConfigs ?st2 ! j) * 2 ^ q\<rparr>"
        by auto
      have "accountConfigs st' ! j =
               (accountConfigs st ! j)\<lparr>currentDelay := currentDelay (accountConfigs st ! j) * 2 ^ (p + q)\<rparr>"
        unfolding q p by (simp add: power_add mult.assoc)
      then show "\<exists>k. accountConfigs st' ! j =
            (accountConfigs st ! j)\<lparr>currentDelay := currentDelay (accountConfigs st ! j) * 2 ^ k\<rparr>"
        by blast
    qed
    with ih len2 show ?thesis by simp
  qed
qed

subsection \<open>A run on the concrete inputs\<close>

text \<open>
  One account, a deadline after one hour. In the first cycle both groups are rate limited
  once and the retries succeed; the second cycle, in which both deliveries are refused,
  ends at the deadline.
\<close>

lemma demo_run:
  "standardForward [demoConfig 1] 1 0
     [demoCycle 5 10 (laneUp floodOnce), demoCycle 20 3600000 (laneUp refused)] =
   Some (DeadlineAfterDispatch,
         \<lparr>cycleCount = 2, totalSuccessCount = 2, totalFailCount = 2,
          accountConfigs = [(demoConfig 1)\<lparr>currentDelay := 4\<rparr>]\<rparr>,
         [\<lparr>cycleNo = 1, startedAt = 5,
           laneLogs =
             [\<lparr>status = Connected \<lparr>sourceChannelId = ''chanA'', messageId = 7\<rparr>,
               results = [okResult (plainGroup 1 ''a''), okResult (plainGroup 2 ''b'')],
               actions = [Invoke 1 7 None, Sleep 10000, Invoke 1 7 None, Sleep 2000,
                          Invoke 2 7 None, Sleep 10000, Invoke 2 7 None, Sleep 4000]\<rparr>]\<rparr>,
          \<lparr>cycleNo = 2, startedAt = 20,
           laneLogs =
             [\<lparr>status = Connected \<lparr>sourceChannelId = ''chanB'', messageId = 8\<rparr>,
               results = [failResult (plainGroup 1 ''a'') ''Writing is forbidden in this chat'',
                          failResult (plainGroup 2 ''b'') ''Writing is forbidden in this chat''],
               actions = [Invoke 1 8 None, Sleep 4000, Invoke 2 8 None, Sleep 4000]\<rparr>]\<rparr>])"
  by code_simp



text \<open>
  C7. When the clock read by the loop condition is not before the deadline, the loop
  ends there: no cycle is begun and the counters are unchanged. Every cycle that a run
  executes was begun at a clock reading before the deadline, and the cycle counter
  counts exactly the cycles executed. With a duration of 0 the deadline is the starting
  time, which the clock has reached at the first test: no cycle is executed and the
  totals are 0.
\<close>

theorem no_cycle_after_deadline:
  "(\<not> nowStart e < endTime \<longrightarrow> runCycles endTime (e # es) st = Some (DeadlineBeforeCycle, st, [])) \<and>
   (runCycles endTime envs st = Some (ex, st', lgs) \<longrightarrow>
      (\<forall>l \<in> set lgs. startedAt l < endTime) \<and> cycleCount st' = cycleCount st + length lgs) \<and>
   (startTime \<le> nowStart e \<longrightarrow>
      standardForward cfgs 0 startTime (e # es) =
        Some (DeadlineBeforeCycle,
              \<lparr>cycleCount = 0, totalSuccessCount = 0, totalFailCount = 0, accountConfigs = cfgs\<rparr>,
              []))"
proof (intro conjI impI)
  assume "\<not> nowStart e < endTime"
  then show "runCycles endTime (e # es) st = Some (DeadlineBeforeCycle, st, [])" by simp
next
  assume r: "runCycles endTime envs st = Some (ex, st', lgs)"
  from runCycles_logs [OF r] show "cycleCount st' = cycleCount st + length lgs" by simp
  from runCycles_logs [OF r] have "\<forall>k < length lgs. startedAt (lgs ! k) < endTime" by simp
  then show "\<forall>l \<in> set lgs. startedAt l < endTime" by (auto simp: in_set_conv_nth)
next
  assume "startTime \<le> nowStart e"
  then show "standardForward cfgs 0 startTime (e # es) =
        Some (DeadlineBeforeCycle,
              \<lparr>cycleCount = 0, totalSuccessCount = 0, totalFailCount = 0, accountConfigs = cfgs\<rparr>,
              [])"
    by (simp add: standardForward_def)
qed

theorem no_cycle_after_deadline_witness:
  "runCycles 100 [demoCycle 100 200 (laneUp delivered)]
     \<lparr>cycleCount = 3, totalSuccessCount = 4, totalFailCount = 1, accountConfigs = [demoConfig 1]\<rparr> =
     Some (DeadlineBeforeCycle,
       \<lparr>cycleCount = 3, totalSuccessCount = 4, totalFailCount = 1, accountConfigs = [demoConfig 1]\<rparr>, []) \<and>
   startedAt (snd (snd (the (standardForward [demoConfig 1] 1 0
       [demoCycle 5 10 (laneUp floodOnce), demoCycle 20 3600000 (laneUp refused)]))) ! 1) < 3600000 \<and>
   cycleCount (fst (snd (the (standardForward [demoConfig 1] 1 0
       [demoCycle 5 10 (laneUp floodOnce), demoCycle 20 3600000 (laneUp refused)])))) = 2 \<and>
   standardForward [demoConfig 1] 0 50 [demoCycle 50 60 (laneUp delivered)] =
     Some (DeadlineBeforeCycle,
       \<lparr>cycleCount = 0, totalSuccessCount = 0, totalFailCount = 0, accountConfigs = [demoConfig 1]\<rparr>, [])"
proof -
  let ?st = "\<lparr>cycleCount = 3, totalSuccessCount = 4, totalFailCount = 1, accountConfigs = [demoConfig 1]\<rparr>"
  have h1: "\<not> nowStart (demoCycle 100 200 (laneUp delivered)) < 100" by (simp add: demoCycle_def)
  note T1 = no_cycle_after_deadline [where e = "demoCycle 100 200 (laneUp delivered)" and endTime = 100
      and es = "[]" and st = ?st, THEN conjunct1, THEN mp, OF h1]
  let ?run = "standardForward [demoConfig 1] 1 0
       [demoCycle 5 10 (laneUp floodOnce), demoCycle 20 3600000 (laneUp refused)]"
  let ?st0 = "\<lparr>cycleCount = 0, totalSuccessCount = 0, totalFailCount = 0, accountConfigs = [demoConfig 1]\<rparr>"
  obtain ex st' lgs where run: "?run = Some (ex, st', lgs)" and len: "length lgs = 2"
    using demo_run by simp
  from run have r: "runCycles (0 + 1 * 60 * 60 * 1000)
      [demoCycle 5 10 (laneUp floodOnce), demoCycle 20 3600000 (laneUp refused)] ?st0 = Some (ex, st', lgs)"
    by (simp add: standardForward_def)
  note T2 = no_cycle_after_deadline [THEN conjunct2, THEN conjunct1, THEN mp, OF r]
  from T2 len have b: "startedAt (lgs ! 1) < 3600000" by simp
  from T2 len have c: "cycleCount st' = 2" by simp
  have h3: "(50::real) \<le> nowStart (demoCycle 50 60 (laneUp delivered))" by (simp add: demoCycle_def)
  note T3 = no_cycle_after_deadline [where e = "demoCycle 50 60 (laneUp delivered)" and startTime = 50
      and es = "[]" and cfgs = "[demoConfig 1]", THEN conjunct2, THEN conjunct2, THEN mp, OF h3]
  from T1 b c T3 run show ?thesis by simp
qed

lemma lane_outcomes_split:
  fixes ls :: "laneLog list"
  shows "sum_list (map (\<lambda>l. length (filter success (results l))) ls) +
         sum_list (map (\<lambda>l. length (filter (\<lambda>r. \<not> success r) (results l))) ls) =
         sum_list (map (\<lambda>l. length (results l)) ls)"
proof (induction ls)
  case Nil
  show ?case by simp
next
  case (Cons l ls)
  have "length (filter success (results l)) + length (filter (\<lambda>r. \<not> success r) (results l)) =
        length (results l)"
    by (rule sum_length_filter_compl)
  with Cons show ?case by simp
qed

lemma cycle_outcomes_split: "cycleSuccesses c + cycleFailures c = cycleOutcomes c"
  unfolding cycleSuccesses_def cycleFailures_def cycleOutcomes_def
  by (rule lane_outcomes_split)

lemma sum_outcomes_split:
  "sum_list (map cycleSuccesses lgs) + sum_list (map cycleFailures lgs) =
   sum_list (map cycleOutcomes lgs)"
proof (induction lgs)
  case Nil
  show ?case by simp
next
  case (Cons c cs)
  from Cons cycle_outcomes_split [of c] show ?case by simp
qed


text \<open>
  C5. The totals after a run are the totals before it plus the successes, and the
  failures, of the results of all lanes of all executed cycles; so they never decrease,
  over a cycle and over the run. Together they grow by the number of all results, and a
  connected lane has exactly one result for each of its destinations in each cycle,
  a lane that is not connected has none.
\<close>

theorem totals_are_sums:
  "totalSuccessCount st \<le> totalSuccessCount (fst (snd (runCycle endTime e st))) \<and>
   totalFailCount st \<le> totalFailCount (fst (snd (runCycle endTime e st))) \<and>
   (runCycles endTime envs st = Some (ex, st', lgs) \<longrightarrow>
      totalSuccessCount st' = totalSuccessCount st + sum_list (map cycleSuccesses lgs) \<and>
      totalFailCount st' = totalFailCount st + sum_list (map cycleFailures lgs) \<and>
      totalSuccessCount st \<le> totalSuccessCount st' \<and>
      totalFailCount st \<le> totalFailCount st' \<and>
      totalSuccessCount st' + totalFailCount st' =
        totalSuccessCount st + totalFailCount st + sum_list (map cycleOutcomes lgs) \<and>
      (\<forall>k < length lgs. \<forall>j < length (accountConfigs st).
         length (laneLogs (lgs ! k)) = length (accountConfigs st) \<and>
         (isConnected (laneLogs (lgs ! k) ! j) \<longrightarrow>
            length (results (laneLogs (lgs ! k) ! j)) =
              length (writableGroups (accountConfigs st ! j))) \<and>
         (\<not> isConnected (laneLogs (lgs ! k) ! j) \<longrightarrow> results (laneLogs (lgs ! k) ! j) = [])))"
proof (intro conjI impI)
  show "totalSuccessCount st \<le> totalSuccessCount (fst (snd (runCycle endTime e st)))"
    by (simp add: runCycle_success)
  show "totalFailCount st \<le> totalFailCount (fst (snd (runCycle endTime e st)))"
    by (simp add: runCycle_fail)
next
  assume r: "runCycles endTime envs st = Some (ex, st', lgs)"
  from runCycles_totals [OF r]
  show s: "totalSuccessCount st' = totalSuccessCount st + sum_list (map cycleSuccesses lgs)"
    and f: "totalFailCount st' = totalFailCount st + sum_list (map cycleFailures lgs)"
    by simp_all
  from s show "totalSuccessCount st \<le> totalSuccessCount st'" by simp
  from f show "totalFailCount st \<le> totalFailCount st'" by simp
  from s f sum_outcomes_split [of lgs]
  show "totalSuccessCount st' + totalFailCount st' =
        totalSuccessCount st + totalFailCount st + sum_list (map cycleOutcomes lgs)"
    by simp
  show "\<forall>k < length lgs. \<forall>j < length (accountConfigs st).
         length (laneLogs (lgs ! k)) = length (accountConfigs st) \<and>
         (isConnected (laneLogs (lgs ! k) ! j) \<longrightarrow>
            length (results (laneLogs (lgs ! k) ! j)) =
              length (writableGroups (accountConfigs st ! j))) \<and>
         (\<not> isConnected (laneLogs (lgs ! k) ! j) \<longrightarrow> results (laneLogs (lgs ! k) ! j) = [])"
  proof (intro allI impI)
    fix k j assume k: "k < length lgs" and j: "j < length (accountConfigs st)"
    note L = runCycles_logs [OF r, THEN conjunct2, THEN spec, THEN mp, OF k]
    from L have len: "length (laneLogs (lgs ! k)) = length (accountConfigs st)" by blast
    from L j have "laneLogFor (cycleNo (lgs ! k)) (accountConfigs st ! j) (laneLogs (lgs ! k) ! j)"
      by blast
    with len show "length (laneLogs (lgs ! k)) = length (accountConfigs st) \<and>
         (isConnected (laneLogs (lgs ! k) ! j) \<longrightarrow>
            length (results (laneLogs (lgs ! k) ! j)) =
              length (writableGroups (accountConfigs st ! j))) \<and>
         (\<not> isConnected (laneLogs (lgs ! k) ! j) \<longrightarrow> results (laneLogs (lgs ! k) ! j) = [])"
      unfolding laneLogFor_def by blast
  qed
qed

theorem totals_are_sums_witness:
  "totalSuccessCount (fst (snd (the (standardForward [demoConfig 1] 1 0
       [demoCycle 5 10 (laneUp floodOnce), demoCycle 20 3600000 (laneUp refused)])))) =
     0 + sum_list (map cycleSuccesses (snd (snd (the (standardForward [demoConfig 1] 1 0
       [demoCycle 5 10 (laneUp floodOnce), demoCycle 20 3600000 (laneUp refused)]))))) \<and>
   sum_list (map cycleSuccesses (snd (snd (the (standardForward [demoConfig 1] 1 0
       [demoCycle 5 10 (laneUp floodOnce), demoCycle 20 3600000 (laneUp refused)]))))) = 2 \<and>
   totalFailCount (fst (snd (the (standardForward [demoConfig 1] 1 0
       [demoCycle 5 10 (laneUp floodOnce), demoCycle 20 3600000 (laneUp refused)])))) =
     0 + sum_list (map cycleFailures (snd (snd (the (standardForward [demoConfig 1] 1 0
       [demoCycle 5 10 (laneUp floodOnce), demoCycle 20 3600000 (laneUp refused)]))))) \<and>
   sum_list (map cycleFailures (snd (snd (the (standardForward [demoConfig 1] 1 0
       [demoCycle 5 10 (laneUp floodOnce), demoCycle 20 3600000 (laneUp refused)]))))) = 2 \<and>
   length (results (laneLogs (snd (snd (the (standardForward [demoConfig 1] 1 0
       [demoCycle 5 10 (laneUp floodOnce), demoCycle 20 3600000 (laneUp refused)]))) ! 1) ! 0)) = 2"
proof -
  let ?run = "standardForward [demoConfig 1] 1 0
       [demoCycle 5 10 (laneUp floodOnce), demoCycle 20 3600000 (laneUp refused)]"
  let ?st0 = "\<lparr>cycleCount = 0, totalSuccessCount = 0, totalFailCount = 0, accountConfigs = [demoConfig 1]\<rparr>"
  obtain ex st' lgs where run: "?run = Some (ex, st', lgs)" and len: "length lgs = 2"
    and con: "isConnected (laneLogs (lgs ! 1) ! 0)"
    and s: "sum_list (map cycleSuccesses lgs) = 2" and f: "sum_list (map cycleFailures lgs) = 2"
    using demo_run
    by (simp add: isConnected_def cycleSuccesses_def cycleFailures_def okResult_def failResult_def)
  from run have r: "runCycles (0 + 1 * 60 * 60 * 1000)
      [demoCycle 5 10 (laneUp floodOnce), demoCycle 20 3600000 (laneUp refused)] ?st0 = Some (ex, st', lgs)"
    by (simp add: standardForward_def)
  note T = totals_are_sums [where e = "demoCycle 5 10 (laneUp floodOnce)" and st = ?st0,
      THEN conjunct2, THEN conjunct2, THEN mp, OF r]
  from T have a: "totalSuccessCount st' = 0 + sum_list (map cycleSuccesses lgs)"
    and b: "totalFailCount st' = 0 + sum_list (map cycleFailures lgs)" by simp_all
  from T have "\<forall>k < length lgs. \<forall>j < length (accountConfigs ?st0).
         length (laneLogs (lgs ! k)) = length (accountConfigs ?st0) \<and>
         (isConnected (laneLogs (lgs ! k) ! j) \<longrightarrow>
            length (results (laneLogs (lgs ! k) ! j)) =
              length (writableGroups (accountConfigs ?st0 ! j))) \<and>
         (\<not> isConnected (laneLogs (lgs ! k) ! j) \<longrightarrow> results (laneLogs (lgs ! k) ! j) = [])"
    by blast
  with len con have "length (results (laneLogs (lgs ! 1) ! 0)) =
      length (writableGroups (accountConfigs ?st0 ! 0))"
    by simp
  then have c: "length (results (laneLogs (lgs ! 1) ! 0)) = 2"
    by (simp add: demoConfig_def newConfig_def)
  from a b c s f run show ?thesis by simp
qed

lemma doubling_grows:
  fixes d :: real
  assumes "0 \<le> d"
  shows "d \<le> d * 2 ^ k"
proof -
  have p: "(1::real) \<le> 2 ^ k" by simp
  from p assms have "d * 1 \<le> d * 2 ^ k" by (rule mult_left_mono)
  then show ?thesis by simp
qed

text \<open>
  C1, as the code has it. A configuration is created with its current delay equal to
  the delay typed by the operator, which is also its initial delay. Processing a
  destination changes the configuration only by doubling the current delay, and only
  when the first attempt at the destination is rate limited. Over a cycle, and over a
  whole run, the initial delay of every lane is unchanged and its current delay is the
  former one times a power of two: it is never reset. When the delay is not negative,
  the current delay never decreases and is at least the initial delay.
\<close>

theorem currentDelay_ratchet:
  "currentDelay (newConfig acc srcs d gs) = d \<and> initialDelay (newConfig acc srcs d gs) = d \<and>
   fst (forwardGroup msg cfg g denv) =
     (if rateLimited msg g denv then cfg\<lparr>currentDelay := currentDelay cfg * 2\<rparr> else cfg) \<and>
   (\<forall>j < length (accountConfigs st).
      (\<exists>k. accountConfigs (fst (snd (runCycle endTime e st))) ! j =
            (accountConfigs st ! j)\<lparr>currentDelay := currentDelay (accountConfigs st ! j) * 2 ^ k\<rparr>) \<and>
      (0 \<le> currentDelay (accountConfigs st ! j) \<longrightarrow>
         currentDelay (accountConfigs st ! j) \<le>
           currentDelay (accountConfigs (fst (snd (runCycle endTime e st))) ! j))) \<and>
   (standardForward cfgs durationHours startTime envs = Some (ex, st', lgs) \<longrightarrow>
      length (accountConfigs st') = length cfgs \<and>
      (\<forall>j < length cfgs.
         currentDelay (cfgs ! j) = initialDelay (cfgs ! j) \<longrightarrow>
         initialDelay (accountConfigs st' ! j) = initialDelay (cfgs ! j) \<and>
         (\<exists>k. currentDelay (accountConfigs st' ! j) = initialDelay (cfgs ! j) * 2 ^ k) \<and>
         (0 \<le> initialDelay (cfgs ! j) \<longrightarrow>
            initialDelay (cfgs ! j) \<le> currentDelay (accountConfigs st' ! j))))"
proof (intro conjI impI allI)
  show "currentDelay (newConfig acc srcs d gs) = d" by (simp add: newConfig_def)
  show "initialDelay (newConfig acc srcs d gs) = d" by (simp add: newConfig_def)
  show "fst (forwardGroup msg cfg g denv) =
     (if rateLimited msg g denv then cfg\<lparr>currentDelay := currentDelay cfg * 2\<rparr> else cfg)"
    by (rule forwardGroup_config)
next
  fix j assume j: "j < length (accountConfigs st)"
  from runCycle_config_nth [OF j, of endTime e]
  show "\<exists>k. accountConfigs (fst (snd (runCycle endTime e st))) ! j =
            (accountConfigs st ! j)\<lparr>currentDelay := currentDelay (accountConfigs st ! j) * 2 ^ k\<rparr>" .
next
  fix j assume j: "j < length (accountConfigs st)"
    and nn: "0 \<le> currentDelay (accountConfigs st ! j)"
  from runCycle_config_nth [OF j, of endTime e] obtain k where
    "accountConfigs (fst (snd (runCycle endTime e st))) ! j =
       (accountConfigs st ! j)\<lparr>currentDelay := currentDelay (accountConfigs st ! j) * 2 ^ k\<rparr>"
    by blast
  then have "currentDelay (accountConfigs (fst (snd (runCycle endTime e st))) ! j) =
             currentDelay (accountConfigs st ! j) * 2 ^ k"
    by simp
  with doubling_grows [OF nn, of k]
  show "currentDelay (accountConfigs st ! j) \<le>
          currentDelay (accountConfigs (fst (snd (runCycle endTime e st))) ! j)"
    by simp
next
  assume run: "standardForward cfgs durationHours startTime envs = Some (ex, st', lgs)"
  let ?st = "\<lparr>cycleCount = 0, totalSuccessCount = 0, totalFailCount = 0, accountConfigs = cfgs\<rparr>"
  from run have r: "runCycles (startTime + durationHours * 60 * 60 * 1000) envs ?st = Some (ex, st', lgs)"
    by (simp add: standardForward_def)
  from runCycles_configs [OF r] show "length (accountConfigs st') = length cfgs" by simp
next
  fix j
  assume run: "standardForward cfgs durationHours startTime envs = Some (ex, st', lgs)"
    and j: "j < length cfgs" and eq: "currentDelay (cfgs ! j) = initialDelay (cfgs ! j)"
  let ?st = "\<lparr>cycleCount = 0, totalSuccessCount = 0, totalFailCount = 0, accountConfigs = cfgs\<rparr>"
  from run have r: "runCycles (startTime + durationHours * 60 * 60 * 1000) envs ?st = Some (ex, st', lgs)"
    by (simp add: standardForward_def)
  from runCycles_configs [OF r] j obtain k where
    k: "accountConfigs st' ! j = (cfgs ! j)\<lparr>currentDelay := currentDelay (cfgs ! j) * 2 ^ k\<rparr>"
    by auto
  from k show "initialDelay (accountConfigs st' ! j) = initialDelay (cfgs ! j)" by simp
  from k eq have c: "currentDelay (accountConfigs st' ! j) = initialDelay (cfgs ! j) * 2 ^ k" by simp
  then show "\<exists>k. currentDelay (accountConfigs st' ! j) = initialDelay (cfgs ! j) * 2 ^ k" by blast
  assume nn: "0 \<le> initialDelay (cfgs ! j)"
  from doubling_grows [OF nn, of k] c
  show "initialDelay (cfgs ! j) \<le> currentDelay (accountConfigs st' ! j)" by simp
qed


theorem currentDelay_ratchet_witness:
  "currentDelay (demoConfig 1) = initialDelay (demoConfig 1) \<and>
   fst (forwardGroup 7 (demoConfig 1) (plainGroup 1 ''a'') floodOnce) = (demoConfig 1)\<lparr>currentDelay := 2\<rparr> \<and>
   initialDelay (accountConfigs (fst (snd (the (standardForward [demoConfig 1] 1 0
       [demoCycle 5 10 (laneUp floodOnce), demoCycle 20 3600000 (laneUp refused)])))) ! 0) = 1 \<and>
   currentDelay (accountConfigs (fst (snd (the (standardForward [demoConfig 1] 1 0
       [demoCycle 5 10 (laneUp floodOnce), demoCycle 20 3600000 (laneUp refused)])))) ! 0) = 4 \<and>
   initialDelay ([demoConfig 1] ! 0) \<le>
     currentDelay (accountConfigs (fst (snd (the (standardForward [demoConfig 1] 1 0
       [demoCycle 5 10 (laneUp floodOnce), demoCycle 20 3600000 (laneUp refused)])))) ! 0)"
proof -
  note T = currentDelay_ratchet [where acc = "''+100''" and srcs = twoSources and d = 1
      and gs = "[plainGroup 1 ''a'', plainGroup 2 ''b'']" and msg = 7 and cfg = "demoConfig 1"
      and g = "plainGroup 1 ''a''" and denv = floodOnce and cfgs = "[demoConfig 1]"]
  from T have a: "currentDelay (demoConfig 1) = initialDelay (demoConfig 1)"
    by (simp add: demoConfig_def)
  have rl: "rateLimited 7 (plainGroup 1 ''a'') floodOnce" by code_simp
  from T rl have b: "fst (forwardGroup 7 (demoConfig 1) (plainGroup 1 ''a'') floodOnce) =
      (demoConfig 1)\<lparr>currentDelay := 2\<rparr>"
    by (simp add: demoConfig_def newConfig_def)
  let ?run = "standardForward [demoConfig 1] 1 0
       [demoCycle 5 10 (laneUp floodOnce), demoCycle 20 3600000 (laneUp refused)]"
  obtain ex st' lgs where run: "?run = Some (ex, st', lgs)"
    and cur: "currentDelay (accountConfigs st' ! 0) = 4"
    using demo_run by simp
  have j0: "0 < length [demoConfig 1]" by simp
  have eq: "currentDelay ([demoConfig 1] ! 0) = initialDelay ([demoConfig 1] ! 0)"
    by (simp add: demoConfig_def newConfig_def)
  have nn: "0 \<le> initialDelay ([demoConfig 1] ! 0)" by (simp add: demoConfig_def newConfig_def)
  note R = T [THEN conjunct2, THEN conjunct2, THEN conjunct2, THEN conjunct2, THEN mp, OF run,
      THEN conjunct2, THEN spec, of 0, THEN mp, OF j0, THEN mp, OF eq]
  from R have c: "initialDelay (accountConfigs st' ! 0) = 1"
    by (simp add: demoConfig_def newConfig_def)
  from R [THEN conjunct2, THEN conjunct2, THEN mp, OF nn]
  have d: "initialDelay ([demoConfig 1] ! 0) \<le> currentDelay (accountConfigs st' ! 0)" .
  from a b c cur d run show ?thesis by simp
qed

text \<open>
  C1 as stated fails for a negative delay, which the operator can type: a pass in which
  both groups are rate limited takes the delay from \<open>-1\<close> to \<open>-4\<close>, below the initial
  delay.
\<close>

theorem currentDelay_negative_counterexample:
  "initialDelay (fst (forwardWithClient (\<lambda>i. floodOnce) (demoConfig (- 1)) 7)) = - 1 \<and>
   currentDelay (fst (forwardWithClient (\<lambda>i. floodOnce) (demoConfig (- 1)) 7)) = - 4 \<and>
   \<not> initialDelay (fst (forwardWithClient (\<lambda>i. floodOnce) (demoConfig (- 1)) 7)) \<le>
       currentDelay (fst (forwardWithClient (\<lambda>i. floodOnce) (demoConfig (- 1)) 7)) \<and>
   currentDelay (fst (forwardWithClient (\<lambda>i. floodOnce) (demoConfig (- 1)) 7)) <
     currentDelay (demoConfig (- 1))"
proof -
  have "fst (forwardWithClient (\<lambda>i. floodOnce) (demoConfig (- 1)) 7) =
        (demoConfig (- 1))\<lparr>currentDelay := - 4\<rparr>"
    by code_simp
  then show ?thesis by (simp add: demoConfig_def newConfig_def)
qed

lemma runCycles_exit:
  "runCycles endTime envs st = Some (ex, st', lgs) \<Longrightarrow>
   (ex = NoAccountConnected \<longrightarrow> lgs \<noteq> [] \<and> (\<forall>l \<in> set (laneLogs (last lgs)). \<not> isConnected l)) \<and>
   (ex = DeadlineBeforeCycle \<longrightarrow> (\<exists>e \<in> set envs. endTime \<le> nowStart e)) \<and>
   (ex = DeadlineAfterDispatch \<longrightarrow> (\<exists>e \<in> set envs. endTime \<le> nowEnd e)) \<and>
   (\<forall>k. Suc k < length lgs \<longrightarrow> (\<exists>l \<in> set (laneLogs (lgs ! k)). isConnected l))"
proof (induction envs arbitrary: st lgs)
  case Nil
  then show ?case by simp
next
  case (Cons e es)
  let ?st2 = "fst (snd (runCycle endTime e st))"
  let ?lg = "snd (snd (runCycle endTime e st))"
  note ex = runCycle_exit [of endTime e st]
  from runCycles_Cons [OF Cons.prems]
  consider (before) "\<not> nowStart e < endTime" "ex = DeadlineBeforeCycle" "st' = st" "lgs = []"
    | (exit) "nowStart e < endTime" "fst (runCycle endTime e st) = Some ex" "st' = ?st2" "lgs = [?lg]"
    | (loop) lgs' where "nowStart e < endTime" "fst (runCycle endTime e st) = None"
        "runCycles endTime es ?st2 = Some (ex, st', lgs')" "lgs = ?lg # lgs'"
    by blast
  then show ?case
  proof cases
    case before
    then show ?thesis by auto
  next
    case exit
    from exit(2) ex have
      "(ex = NoAccountConnected \<and> (\<forall>l \<in> set (laneLogs ?lg). \<not> isConnected l)) \<or>
       (ex = DeadlineAfterDispatch \<and> endTime \<le> nowEnd e)"
      by (auto split: if_splits)
    with exit show ?thesis by auto
  next
    case loop
    from loop(2) ex have con: "\<exists>l \<in> set (laneLogs ?lg). isConnected l"
      by (auto split: if_splits)
    note ih = Cons.IH [OF loop(3)]
    have a: "ex = NoAccountConnected \<longrightarrow> lgs \<noteq> [] \<and> (\<forall>l \<in> set (laneLogs (last lgs)). \<not> isConnected l)"
      using ih loop(4) by simp
    have b: "ex = DeadlineBeforeCycle \<longrightarrow> (\<exists>e' \<in> set (e # es). endTime \<le> nowStart e')"
      using ih by auto
    have c: "ex = DeadlineAfterDispatch \<longrightarrow> (\<exists>e' \<in> set (e # es). endTime \<le> nowEnd e')"
      using ih by auto
    have d: "\<forall>k. Suc k < length lgs \<longrightarrow> (\<exists>l \<in> set (laneLogs (lgs ! k)). isConnected l)"
    proof (intro allI impI)
      fix k assume k: "Suc k < length lgs"
      show "\<exists>l \<in> set (laneLogs (lgs ! k)). isConnected l"
      proof (cases k)
        case 0
        with loop(4) con show ?thesis by simp
      next
        case (Suc k')
        with k loop(4) have "Suc k' < length lgs'" by simp
        with ih have "\<exists>l \<in> set (laneLogs (lgs' ! k')). isConnected l" by blast
        with Suc loop(4) show ?thesis by simp
      qed
    qed
    from a b c d show ?thesis by blast
  qed
qed

lemma runLane_ConnectFailed:
  "connectError le = Some m \<Longrightarrow>
   runLane n cfg le = (cfg, \<lparr>status = ConnectFailed, results = [], actions = []\<rparr>)"
  by (simp add: runLane_def connectLane_def)

text \<open>
  C4, as the code has it. Whether a cycle ends the run depends only on which accounts
  are connected and on the clock, never on the outcome of a delivery: the cycle ends the
  run when no account is connected, or when the deadline has passed after the dispatch,
  and otherwise the loop goes on with the next cycle. An account whose connection fails
  is skipped in that cycle, with no result and its configuration unchanged, and every
  cycle tries every account again. So a run that has ended has ended at the deadline, or
  in a cycle in which no account was connected, and in every cycle before its last at
  least one account was connected.
\<close>

theorem errors_do_not_end_run:
  "fst (runCycle endTime e st) =
     (if \<forall>l \<in> set (laneLogs (snd (snd (runCycle endTime e st)))). \<not> isConnected l
      then Some NoAccountConnected
      else if nowEnd e \<ge> endTime then Some DeadlineAfterDispatch else None) \<and>
   (nowStart e < endTime \<and> nowEnd e < endTime \<and>
    (\<exists>l \<in> set (laneLogs (snd (snd (runCycle endTime e st)))). isConnected l) \<longrightarrow>
      runCycles endTime (e # es) st =
        (case runCycles endTime es (fst (snd (runCycle endTime e st))) of
           None \<Rightarrow> None
         | Some (ex2, st3, lgs2) \<Rightarrow> Some (ex2, st3, snd (snd (runCycle endTime e st)) # lgs2))) \<and>
   (connectError le = Some m \<longrightarrow>
      runLane n cfg le = (cfg, \<lparr>status = ConnectFailed, results = [], actions = []\<rparr>)) \<and>
   (runCycles endTime envs st = Some (ex, st', lgs) \<longrightarrow>
      (ex = NoAccountConnected \<longrightarrow>
         lgs \<noteq> [] \<and> (\<forall>l \<in> set (laneLogs (last lgs)). \<not> isConnected l)) \<and>
      (ex = DeadlineBeforeCycle \<longrightarrow> (\<exists>e' \<in> set envs. endTime \<le> nowStart e')) \<and>
      (ex = DeadlineAfterDispatch \<longrightarrow> (\<exists>e' \<in> set envs. endTime \<le> nowEnd e')) \<and>
      (\<forall>k. Suc k < length lgs \<longrightarrow> (\<exists>l \<in> set (laneLogs (lgs ! k)). isConnected l)) \<and>
      (\<forall>k < length lgs. length (laneLogs (lgs ! k)) = length (accountConfigs st)))"
proof (intro conjI impI)
  show "fst (runCycle endTime e st) =
     (if \<forall>l \<in> set (laneLogs (snd (snd (runCycle endTime e st)))). \<not> isConnected l
      then Some NoAccountConnected
      else if nowEnd e \<ge> endTime then Some DeadlineAfterDispatch else None)"
    by (rule runCycle_exit)
next
  assume a: "nowStart e < endTime \<and> nowEnd e < endTime \<and>
    (\<exists>l \<in> set (laneLogs (snd (snd (runCycle endTime e st)))). isConnected l)"
  with runCycle_exit [of endTime e st] have n: "fst (runCycle endTime e st) = None" by auto
  obtain x st2 lg where rc: "runCycle endTime e st = (x, st2, lg)"
    by (cases "runCycle endTime e st") auto
  with n have x: "x = None" by simp
  from rc have s2: "fst (snd (runCycle endTime e st)) = st2"
    and l: "snd (snd (runCycle endTime e st)) = lg" by simp_all
  show "runCycles endTime (e # es) st =
        (case runCycles endTime es (fst (snd (runCycle endTime e st))) of
           None \<Rightarrow> None
         | Some (ex2, st3, lgs2) \<Rightarrow> Some (ex2, st3, snd (snd (runCycle endTime e st)) # lgs2))"
    unfolding s2 l using a rc x by simp
next
  assume "connectError le = Some m"
  then show "runLane n cfg le = (cfg, \<lparr>status = ConnectFailed, results = [], actions = []\<rparr>)"
    by (rule runLane_ConnectFailed)
next
  assume r: "runCycles endTime envs st = Some (ex, st', lgs)" and x: "ex = NoAccountConnected"
  from runCycles_exit [OF r] x show "lgs \<noteq> []"
    and "\<forall>l \<in> set (laneLogs (last lgs)). \<not> isConnected l" by blast+
next
  assume r: "runCycles endTime envs st = Some (ex, st', lgs)" and x: "ex = DeadlineBeforeCycle"
  from runCycles_exit [OF r] x show "\<exists>e' \<in> set envs. endTime \<le> nowStart e'" by blast
next
  assume r: "runCycles endTime envs st = Some (ex, st', lgs)" and x: "ex = DeadlineAfterDispatch"
  from runCycles_exit [OF r] x show "\<exists>e' \<in> set envs. endTime \<le> nowEnd e'" by blast
next
  assume r: "runCycles endTime envs st = Some (ex, st', lgs)"
  from runCycles_exit [OF r]
  show "\<forall>k. Suc k < length lgs \<longrightarrow> (\<exists>l \<in> set (laneLogs (lgs ! k)). isConnected l)" by blast
  from runCycles_logs [OF r]
  show "\<forall>k < length lgs. length (laneLogs (lgs ! k)) = length (accountConfigs st)" by blast
qed

theorem errors_do_not_end_run_witness:
  "runCycles 3600000 [demoCycle 5 10 (laneUp refused), demoCycle 20 3600000 (laneUp refused)]
     \<lparr>cycleCount = 0, totalSuccessCount = 0, totalFailCount = 0, accountConfigs = [demoConfig 1]\<rparr> =
   (case runCycles 3600000 [demoCycle 20 3600000 (laneUp refused)]
           (fst (snd (runCycle 3600000 (demoCycle 5 10 (laneUp refused))
              \<lparr>cycleCount = 0, totalSuccessCount = 0, totalFailCount = 0,
               accountConfigs = [demoConfig 1]\<rparr>))) of
      None \<Rightarrow> None
    | Some (ex2, st3, lgs2) \<Rightarrow>
        Some (ex2, st3,
              snd (snd (runCycle 3600000 (demoCycle 5 10 (laneUp refused))
                \<lparr>cycleCount = 0, totalSuccessCount = 0, totalFailCount = 0,
                 accountConfigs = [demoConfig 1]\<rparr>)) # lgs2)) \<and>
   runLane 1 (demoConfig 1) laneDown =
     (demoConfig 1, \<lparr>status = ConnectFailed, results = [], actions = []\<rparr>) \<and>
   (\<exists>e' \<in> set [demoCycle 5 10 (laneUp floodOnce), demoCycle 20 3600000 (laneUp refused)].
      (0 + 1 * 60 * 60 * 1000) \<le> nowEnd e') \<and>
   (\<exists>l \<in> set (laneLogs (snd (snd (the (standardForward [demoConfig 1] 1 0
       [demoCycle 5 10 (laneUp floodOnce), demoCycle 20 3600000 (laneUp refused)]))) ! 0)).
      isConnected l)"
proof -
  let ?st0 = "\<lparr>cycleCount = 0, totalSuccessCount = 0, totalFailCount = 0, accountConfigs = [demoConfig 1]\<rparr>"
  let ?e1 = "demoCycle 5 10 (laneUp refused)"
  have c: "\<exists>l \<in> set (laneLogs (snd (snd (runCycle 3600000 ?e1 ?st0)))). isConnected l"
    by code_simp
  have h2: "nowStart ?e1 < 3600000 \<and> nowEnd ?e1 < 3600000 \<and>
      (\<exists>l \<in> set (laneLogs (snd (snd (runCycle 3600000 ?e1 ?st0)))). isConnected l)"
    using c by (simp add: demoCycle_def)
  note T2 = errors_do_not_end_run [where endTime = 3600000 and e = ?e1 and st = ?st0
      and es = "[demoCycle 20 3600000 (laneUp refused)]",
      THEN conjunct2, THEN conjunct1, THEN mp, OF h2]
  have h3: "connectError laneDown = Some ''connect ETIMEDOUT''" by (simp add: laneDown_def)
  note T3 = errors_do_not_end_run [where le = laneDown and n = 1 and cfg = "demoConfig 1",
      THEN conjunct2, THEN conjunct2, THEN conjunct1, THEN mp, OF h3]
  let ?envs = "[demoCycle 5 10 (laneUp floodOnce), demoCycle 20 3600000 (laneUp refused)]"
  let ?run = "standardForward [demoConfig 1] 1 0 ?envs"
  obtain st' lgs where run: "?run = Some (DeadlineAfterDispatch, st', lgs)" and len: "length lgs = 2"
    using demo_run by simp
  from run have r: "runCycles (0 + 1 * 60 * 60 * 1000) ?envs ?st0 = Some (DeadlineAfterDispatch, st', lgs)"
    by (simp add: standardForward_def)
  note T4 = errors_do_not_end_run [THEN conjunct2, THEN conjunct2, THEN conjunct2, THEN mp, OF r]
  from T4 have d: "\<exists>e' \<in> set ?envs. (0 + 1 * 60 * 60 * 1000) \<le> nowEnd e'" by blast
  from T4 have "\<forall>k. Suc k < length lgs \<longrightarrow> (\<exists>l \<in> set (laneLogs (lgs ! k)). isConnected l)"
    by blast
  with len have e: "\<exists>l \<in> set (laneLogs (lgs ! 0)). isConnected l" by simp
  from run have l: "snd (snd (the ?run)) = lgs" by simp
  from T2 T3 d e show ?thesis unfolding l by blast
qed

text \<open>
  C4 as stated fails: the only account cannot connect in the first cycle, five
  milliseconds into a run of 24 hours, and the run ends there; the second cycle, in
  which the connection would have succeeded, is never begun.
\<close>

theorem no_account_connected_counterexample:
  "standardForward [demoConfig 1] 24 0
     [demoCycle 5 10 laneDown, demoCycle 20 30 (laneUp delivered)] =
   Some (NoAccountConnected,
         \<lparr>cycleCount = 1, totalSuccessCount = 0, totalFailCount = 0,
          accountConfigs = [demoConfig 1]\<rparr>,
         [\<lparr>cycleNo = 1, startedAt = 5,
           laneLogs = [\<lparr>status = ConnectFailed, results = [], actions = []\<rparr>]\<rparr>]) \<and>
   (10 :: real) < 0 + 24 * 60 * 60 * 1000"
proof -
  have "standardForward [demoConfig 1] 24 0
     [demoCycle 5 10 laneDown, demoCycle 20 30 (laneUp delivered)] =
   Some (NoAccountConnected,
         \<lparr>cycleCount = 1, totalSuccessCount = 0, totalFailCount = 0,
          accountConfigs = [demoConfig 1]\<rparr>,
         [\<lparr>cycleNo = 1, startedAt = 5,
           laneLogs = [\<lparr>status = ConnectFailed, results = [], actions = []\<rparr>]\<rparr>])"
    by code_simp
  then show ?thesis by simp
qed

subsection \<open>The order of actions\<close>





















end
